theory Spec2Isabelle
  imports Complex_Main
begin

section \<open>Belief propagation and bucket elimination of PyB4ML\<close>

text \<open>
  A shallow embedding of \<^verbatim>\<open>pyb4ml/inference/factored/belief_propagation.py\<close> (class
  \<^verbatim>\<open>BP\<close>) and \<^verbatim>\<open>pyb4ml/inference/factored/bucket.py\<close> (class \<^verbatim>\<open>Bucket\<close>).

  Conventions of the embedding.
  \<^item> Python objects (variables and factors) are addressed by identifiers; the engine
    record holds one table per class, so that \<^verbatim>\<open>is\<close> becomes equality of identifiers
    and in-place mutation of a node becomes an update of its table entry.
  \<^item> Python floats are idealised as real numbers: \<^verbatim>\<open>math.exp\<close> is \<open>exp\<close>,
    \<^verbatim>\<open>math.fsum\<close> is the exact sum \<open>sum_list\<close>, and \<^verbatim>\<open>math.log\<close> is \<open>ln\<close> guarded by the
    domain check that raises \<^verbatim>\<open>ValueError: math domain error\<close>. Rounding, overflow
    and NaN are outside the model.
  \<^item> Every exception of the source is a value of type \<open>error\<close>. A stateful method
    returns \<open>Inr\<close> of the new engine, or \<open>Inl\<close> of the error together with the engine as
    it is when the exception leaves the method.
  \<^item> Printing (\<^verbatim>\<open>_print_start\<close>, \<^verbatim>\<open>_print_loop\<close>, \<^verbatim>\<open>_print_message\<close>, \<^verbatim>\<open>_print_stop\<close>)
    has no effect on the state and is left out.
\<close>

subsection \<open>Errors and the numeric primitives\<close>

datatype validation = EmptyQuery | NotOneVariableQuery | QueryEvidenceIntersection

datatype error =
    ValidationError validation
  | KeyError
  | IndexError
  | AttributeError
  | ZeroDivisionError
  | MathDomainError
  | EmptyMaxError
  | UnpackError
  | MissingMessage
  | DuplicateMessage

text \<open>
  \<open>MathDomainError\<close>, \<open>EmptyMaxError\<close> and \<open>UnpackError\<close> are the three ways the source
  can raise Python's \<^verbatim>\<open>ValueError\<close>: \<^verbatim>\<open>math.log\<close> of a non-positive number, \<^verbatim>\<open>max\<close> of
  an empty sequence, and a one-element tuple unpacking of a sequence of another length.
\<close>

definition py_log :: "real \<Rightarrow> error + real" where
  "py_log x = (if 0 < x then Inr (ln x) else Inl MathDomainError)"

fun py_max :: "real list \<Rightarrow> error + real" where
  "py_max [] = Inl EmptyMaxError"
| "py_max (x # xs) = Inr (fold max xs x)"

text \<open>A comprehension whose element expression may raise: the first failure wins.\<close>

fun mapM_err :: "('a \<Rightarrow> error + 'b) \<Rightarrow> 'a list \<Rightarrow> error + 'b list" where
  "mapM_err f [] = Inr []"
| "mapM_err f (x # xs) =
     (case f x of
        Inl e \<Rightarrow> Inl e
      | Inr y \<Rightarrow> (case mapM_err f xs of Inl e \<Rightarrow> Inl e | Inr ys \<Rightarrow> Inr (y # ys)))"

text \<open>A dictionary built by successive assignment: a later pair overwrites an earlier one.\<close>

definition dict_of :: "('k \<times> 'a) list \<Rightarrow> ('k \<rightharpoonup> 'a)" where
  "dict_of kvs = map_of (rev kvs)"

subsection \<open>Graph model: variables and factors\<close>

type_synonym var_id = nat
type_synonym fac_id = nat

text \<open>
  Modelled from the spec: the classes \<^verbatim>\<open>Variable\<close>, \<^verbatim>\<open>Factor\<close> and \<^verbatim>\<open>FactorGraph\<close> are
  missing. A variable has a name, an ordered domain, its incident factors, an evidence
  flag and the two traversal fields \<^verbatim>\<open>passed\<close> and \<^verbatim>\<open>incoming_messages_number\<close>; these are
  the fields the engine reads and writes.
\<close>

record 'v variable =
  name :: string
  domain :: "'v list"
  v_factors :: "fac_id list"
  evidential :: bool
  v_passed :: bool
  v_incoming_messages_number :: nat

text \<open>
  Modelled from the spec: a factor has an ordered tuple of incident variables, a function
  and the same two traversal fields. It is called with a sequence of (variable, value)
  pairs; what it returns for a binding, also where the binding leaves the values of the
  evidentiary variables to the factor, is a parameter of the model (\<open>f_function\<close>).
\<close>

record 'v factor =
  f_variables :: "var_id list"
  f_function :: "(var_id \<times> 'v) list \<Rightarrow> real"
  f_passed :: bool
  f_incoming_messages_number :: nat

subsection \<open>Messages and the message store\<close>

text \<open>
  Modelled from the spec: the class \<^verbatim>\<open>Message\<close> is missing. A message is built from its
  origin, its destination and a mapping from values to real numbers.
\<close>

record 'v message =
  from_node :: nat
  to_node :: nat
  msg_values :: "'v \<rightharpoonup> real"

text \<open>Modelled from the spec: calling a message with a value reads its value mapping.\<close>

definition message_call :: "'v message \<Rightarrow> 'v \<Rightarrow> error + real" where
  "message_call m v = (case msg_values m v of None \<Rightarrow> Inl KeyError | Some r \<Rightarrow> Inr r)"

type_synonym 'v messages = "(nat \<times> nat) \<rightharpoonup> 'v message"

text \<open>
  Modelled from the spec: the class \<^verbatim>\<open>Messages\<close> (module \<^verbatim>\<open>factor_tree_messages\<close>) is
  missing. The spec's Message Store has an existence check, a write-once insertion and a
  batch retrieval that keeps the order of the origins and fails on a missing message.
\<close>

definition contains :: "'v messages \<Rightarrow> nat \<Rightarrow> nat \<Rightarrow> bool" where
  "contains ms a b = (ms (a, b) \<noteq> None)"

definition cache :: "'v messages \<Rightarrow> 'v message \<Rightarrow> error + 'v messages" where
  "cache ms m =
     (if contains ms (from_node m) (to_node m) then Inl DuplicateMessage
      else Inr (ms((from_node m, to_node m) \<mapsto> m)))"

definition get_from_nodes_to_node :: "'v messages \<Rightarrow> nat list \<Rightarrow> nat \<Rightarrow> error + 'v message list" where
  "get_from_nodes_to_node ms from_nodes to =
     mapM_err (\<lambda>a. case ms (a, to) of None \<Rightarrow> Inl MissingMessage | Some m \<Rightarrow> Inr m) from_nodes"

subsection \<open>The engine state\<close>

datatype direction = FactorToVariable | VariableToFactor

type_synonym 'v evidence = "(var_id \<times> 'v) list"

text \<open>
  The fields of \<^verbatim>\<open>BP\<close> and of its base class that \<^verbatim>\<open>run\<close> touches. \<open>var_obj\<close> and
  \<open>fac_obj\<close> are the object tables. \<open>computed\<close> is a history variable that is not in the
  source: it records, in order, every construction \<^verbatim>\<open>Message(...)\<close> the engine performs,
  as (direction, evidence key, origin, destination).
\<close>

record 'v engine =
  variables :: "var_id list"
  factors :: "fac_id list"
  var_obj :: "var_id \<Rightarrow> 'v variable"
  fac_obj :: "fac_id \<Rightarrow> 'v factor"
  query :: "var_id list"
  evidence_tuples :: "'v evidence"
  factor_to_variable_messages :: "'v evidence \<rightharpoonup> 'v messages"
  variable_to_factor_messages :: "'v evidence \<rightharpoonup> 'v messages"
  query_variable :: "var_id option"
  distribution :: "('v list \<rightharpoonup> real) option"
  print_info :: bool
  loop_passing :: nat
  from_factors :: "fac_id list"
  next_factors :: "fac_id list"
  from_variables :: "var_id list"
  next_variables :: "var_id list"
  computed :: "(direction \<times> 'v evidence \<times> nat \<times> nat) list"

type_synonym 'v result = "(error \<times> 'v engine) + 'v engine"


text \<open>A statement sequence in which an exception of \<open>body\<close> ends the \<^verbatim>\<open>for\<close> loop.\<close>

fun for_each :: "('a \<Rightarrow> 'v engine \<Rightarrow> 'v result) \<Rightarrow> 'a list \<Rightarrow> 'v engine \<Rightarrow> 'v result" where
  "for_each body [] s = Inr s"
| "for_each body (x # xs) s =
     (case body x s of Inl e \<Rightarrow> Inl e | Inr s' \<Rightarrow> for_each body xs s')"

text \<open>\<^verbatim>\<open>{k: f(k) for k in ks}\<close> where \<^verbatim>\<open>f\<close> may raise.\<close>

definition dict_comprehension :: "('k \<Rightarrow> error + 'a) \<Rightarrow> 'k list \<Rightarrow> error + ('k \<rightharpoonup> 'a)" where
  "dict_comprehension f ks =
     (case mapM_err f ks of Inl e \<Rightarrow> Inl e | Inr ys \<Rightarrow> Inr (dict_of (zip ks ys)))"

definition dict_get :: "('k \<rightharpoonup> 'a) \<Rightarrow> 'k \<Rightarrow> error + 'a" where
  "dict_get d k = (case d k of None \<Rightarrow> Inl KeyError | Some x \<Rightarrow> Inr x)"

subsection \<open>Helpers of the graph model\<close>

text \<open>
  Modelled from the spec: \<^verbatim>\<open>Variable.split_evidential_and_non_evidential_variables\<close> is
  missing. It splits the given variables, without the excluded ones, into the evidentiary
  and the free ones, keeping their order.
\<close>

definition split_evidential_and_non_evidential_variables ::
  "(var_id \<Rightarrow> 'v variable) \<Rightarrow> var_id list \<Rightarrow> var_id list \<Rightarrow> var_id list \<times> var_id list" where
  "split_evidential_and_non_evidential_variables tab vars without_variables =
     (let rest = filter (\<lambda>x. x \<notin> set without_variables) vars
      in (filter (\<lambda>x. evidential (tab x)) rest, filter (\<lambda>x. \<not> evidential (tab x)) rest))"

text \<open>
  Modelled from the spec: \<^verbatim>\<open>Variable.evaluate_variables\<close> is missing. It is the cross
  product of the domains of the given variables, one tuple of values per joint assignment.
\<close>

definition evaluate_variables :: "(var_id \<Rightarrow> 'v variable) \<Rightarrow> var_id list \<Rightarrow> 'v list list" where
  "evaluate_variables tab vars = product_lists (map (\<lambda>x. domain (tab x)) vars)"

text \<open>
  Modelled from the spec: the properties \<^verbatim>\<open>factors_number\<close> and \<^verbatim>\<open>variables_number\<close> are
  the degrees of a node, and \<^verbatim>\<open>factor_leaves\<close> and \<^verbatim>\<open>variable_leaves\<close> of the factor graph
  are the nodes with exactly one incident neighbour.
\<close>

definition factors_number :: "'v variable \<Rightarrow> nat" where
  "factors_number x = length (v_factors x)"

definition variables_number :: "'v factor \<Rightarrow> nat" where
  "variables_number f = length (f_variables f)"

definition factor_leaves :: "'v engine \<Rightarrow> fac_id list" where
  "factor_leaves s = filter (\<lambda>f. variables_number (fac_obj s f) = 1) (factors s)"

definition variable_leaves :: "'v engine \<Rightarrow> var_id list" where
  "variable_leaves s = filter (\<lambda>x. factors_number (var_obj s x) = 1) (variables s)"

subsection \<open>Validation\<close>

text \<open>
  Modelled from the spec: the three checks of the base class \<^verbatim>\<open>FactoredAlgorithm\<close> are
  missing. The spec: exactly one query variable; query and evidence variable sets are
  disjoint; fails otherwise with a validation error. They read the engine and change
  nothing.
\<close>

definition check_non_empty_query :: "'v engine \<Rightarrow> error + unit" where
  "check_non_empty_query s =
     (if query s = [] then Inl (ValidationError EmptyQuery) else Inr ())"

definition check_one_variable_query :: "'v engine \<Rightarrow> error + unit" where
  "check_one_variable_query s =
     (if length (query s) \<noteq> 1 then Inl (ValidationError NotOneVariableQuery) else Inr ())"

definition check_query_and_evidence_intersection :: "'v engine \<Rightarrow> error + unit" where
  "check_query_and_evidence_intersection s =
     (if set (query s) \<inter> fst ` set (evidence_tuples s) \<noteq> {}
      then Inl (ValidationError QueryEvidenceIntersection) else Inr ())"

subsection \<open>Passing bookkeeping\<close>

text \<open>
  \<^verbatim>\<open>_update_passing(from_node, to_node)\<close> is called with a factor and a variable, or with
  a variable and a factor; one definition for each.
\<close>

definition update_passing_factor_to_variable :: "fac_id \<Rightarrow> var_id \<Rightarrow> 'v engine \<Rightarrow> 'v engine" where
  "update_passing_factor_to_variable from_factor to_variable s =
     s\<lparr>fac_obj := (fac_obj s)(from_factor := (fac_obj s from_factor)\<lparr>f_passed := True\<rparr>),
       var_obj := (var_obj s)(to_variable := (var_obj s to_variable)
         \<lparr>v_incoming_messages_number := v_incoming_messages_number (var_obj s to_variable) + 1\<rparr>)\<rparr>"

definition update_passing_variable_to_factor :: "var_id \<Rightarrow> fac_id \<Rightarrow> 'v engine \<Rightarrow> 'v engine" where
  "update_passing_variable_to_factor from_variable to_factor s =
     s\<lparr>var_obj := (var_obj s)(from_variable := (var_obj s from_variable)\<lparr>v_passed := True\<rparr>),
       fac_obj := (fac_obj s)(to_factor := (fac_obj s to_factor)
         \<lparr>f_incoming_messages_number := f_incoming_messages_number (fac_obj s to_factor) + 1\<rparr>)\<rparr>"

definition extend_next_variables :: "var_id \<Rightarrow> 'v engine \<Rightarrow> 'v engine" where
  "extend_next_variables variable s =
     (if Some variable \<noteq> query_variable s then
        (if v_incoming_messages_number (var_obj s variable) + 1 = factors_number (var_obj s variable)
         then s\<lparr>next_variables := next_variables s @ [variable]\<rparr> else s)
      else s)"

definition extend_next_factors :: "fac_id \<Rightarrow> 'v engine \<Rightarrow> 'v engine" where
  "extend_next_factors factor s =
     (if f_incoming_messages_number (fac_obj s factor) + 1 = variables_number (fac_obj s factor)
      then s\<lparr>next_factors := next_factors s @ [factor]\<rparr> else s)"

definition get_running_condition :: "'v engine \<Rightarrow> error + bool" where
  "get_running_condition s =
     (case query_variable s of
        None \<Rightarrow> Inl AttributeError
      | Some q \<Rightarrow> Inr (v_incoming_messages_number (var_obj s q) < factors_number (var_obj s q)))"

definition initialize_factor_passing :: "'v engine \<Rightarrow> 'v engine" where
  "initialize_factor_passing s =
     s\<lparr>fac_obj := (\<lambda>f. if f \<in> set (factors s)
        then (fac_obj s f)\<lparr>f_passed := False, f_incoming_messages_number := 0\<rparr>
        else fac_obj s f)\<rparr>"

definition initialize_variable_passing :: "'v engine \<Rightarrow> 'v engine" where
  "initialize_variable_passing s =
     s\<lparr>var_obj := (\<lambda>x. if x \<in> set (variables s)
        then (var_obj s x)\<lparr>v_passed := False, v_incoming_messages_number := 0\<rparr>
        else var_obj s x)\<rparr>"

definition create_factor_to_variable_messages_cache_if_necessary :: "'v engine \<Rightarrow> 'v engine" where
  "create_factor_to_variable_messages_cache_if_necessary s =
     (if factor_to_variable_messages s (evidence_tuples s) = None
      then s\<lparr>factor_to_variable_messages :=
                (factor_to_variable_messages s)(evidence_tuples s \<mapsto> Map.empty)\<rparr>
      else s)"

definition create_variable_to_factor_messages_cache_if_necessary :: "'v engine \<Rightarrow> 'v engine" where
  "create_variable_to_factor_messages_cache_if_necessary s =
     (if variable_to_factor_messages s (evidence_tuples s) = None
      then s\<lparr>variable_to_factor_messages :=
                (variable_to_factor_messages s)(evidence_tuples s \<mapsto> Map.empty)\<rparr>
      else s)"

definition clear_message_cache :: "'v engine \<Rightarrow> 'v engine" where
  "clear_message_cache s =
     s\<lparr>factor_to_variable_messages := Map.empty, variable_to_factor_messages := Map.empty\<rparr>"


subsection \<open>Computing and caching the messages\<close>

text \<open>
  The two statements that end every computing method: \<^verbatim>\<open>message = Message(...)\<close> and
  \<^verbatim>\<open>self._..._messages[self._evidence_tuples].cache(message)\<close>.
\<close>

definition cache_factor_to_variable_message :: "'v messages \<Rightarrow> 'v message \<Rightarrow> 'v engine \<Rightarrow> 'v result" where
  "cache_factor_to_variable_message ms message s =
     (case cache ms message of
        Inl e \<Rightarrow> Inl (e, s)
      | Inr ms' \<Rightarrow> Inr (s\<lparr>factor_to_variable_messages :=
                            (factor_to_variable_messages s)(evidence_tuples s \<mapsto> ms'),
                          computed := computed s @
                            [(FactorToVariable, evidence_tuples s, from_node message, to_node message)]\<rparr>))"

definition cache_variable_to_factor_message :: "'v messages \<Rightarrow> 'v message \<Rightarrow> 'v engine \<Rightarrow> 'v result" where
  "cache_variable_to_factor_message ms message s =
     (case cache ms message of
        Inl e \<Rightarrow> Inl (e, s)
      | Inr ms' \<Rightarrow> Inr (s\<lparr>variable_to_factor_messages :=
                            (variable_to_factor_messages s)(evidence_tuples s \<mapsto> ms'),
                          computed := computed s @
                            [(VariableToFactor, evidence_tuples s, from_node message, to_node message)]\<rparr>))"

definition compute_factor_to_variable_message_from_leaf :: "fac_id \<Rightarrow> var_id \<Rightarrow> 'v engine \<Rightarrow> 'v result" where
  "compute_factor_to_variable_message_from_leaf from_factor to_variable s =
     (case factor_to_variable_messages s (evidence_tuples s) of
        None \<Rightarrow> Inl (KeyError, s)
      | Some ms \<Rightarrow>
          if \<not> contains ms from_factor to_variable then
            (case dict_comprehension
                    (\<lambda>value. py_log (f_function (fac_obj s from_factor) [(to_variable, value)]))
                    (domain (var_obj s to_variable)) of
               Inl e \<Rightarrow> Inl (e, s)
             | Inr vals \<Rightarrow>
                 cache_factor_to_variable_message ms
                   \<lparr>from_node = from_factor, to_node = to_variable, msg_values = vals\<rparr> s)
          else Inr s)"

text \<open>
  The local variables of \<^verbatim>\<open>_compute_factor_to_variable_message_not_from_leaf\<close>:
  \<^verbatim>\<open>max_message\<close>, \<^verbatim>\<open>from_evidential_variables_values\<close>, \<^verbatim>\<open>evidential_messages_sum\<close>, and
  the expression under \<^verbatim>\<open>math.log\<close> for one value of the destination.
\<close>

definition max_message_of :: "(var_id \<Rightarrow> 'v variable) \<Rightarrow> 'v message list \<Rightarrow> error + real" where
  "max_message_of tab non_evidential_messages =
     (if length non_evidential_messages > 0 then
        (case mapM_err (\<lambda>(message, value). message_call message value)
                (concat (map (\<lambda>message. map (\<lambda>value. (message, value))
                                          (domain (tab (from_node message))))
                             non_evidential_messages)) of
           Inl e \<Rightarrow> Inl e
         | Inr xs \<Rightarrow> py_max xs)
      else Inr 0)"

definition from_evidential_variables_values_of ::
  "(var_id \<Rightarrow> 'v variable) \<Rightarrow> var_id list \<Rightarrow> error + 'v list" where
  "from_evidential_variables_values_of tab from_evidential_variables =
     mapM_err (\<lambda>variable. case domain (tab variable) of [] \<Rightarrow> Inl IndexError | d # _ \<Rightarrow> Inr d)
       from_evidential_variables"

definition messages_fsum :: "'v message list \<Rightarrow> 'v list \<Rightarrow> error + real" where
  "messages_fsum msgs vals =
     (case mapM_err (\<lambda>(msg, val). message_call msg val) (zip msgs vals) of
        Inl e \<Rightarrow> Inl e
      | Inr xs \<Rightarrow> Inr (sum_list xs))"

definition weighted_factor_fsum ::
  "'v factor \<Rightarrow> var_id list \<Rightarrow> 'v message list \<Rightarrow> 'v list list \<Rightarrow> real \<Rightarrow> var_id \<Rightarrow> 'v \<Rightarrow> error + real" where
  "weighted_factor_fsum from_factor from_non_evidential_variables non_evidential_messages
       evaluated_non_evidential_variables_values max_message to_variable value =
     (case mapM_err
             (\<lambda>non_evidential_variables_values.
                case messages_fsum non_evidential_messages non_evidential_variables_values of
                  Inl e \<Rightarrow> Inl e
                | Inr msum \<Rightarrow>
                    Inr (f_function from_factor
                           (zip from_non_evidential_variables non_evidential_variables_values
                              @ [(to_variable, value)])
                         * exp (msum - max_message)))
             evaluated_non_evidential_variables_values of
        Inl e \<Rightarrow> Inl e
      | Inr terms \<Rightarrow> Inr (sum_list terms))"

definition factor_to_variable_values_not_from_leaf ::
  "fac_id \<Rightarrow> var_id \<Rightarrow> 'v engine \<Rightarrow> error + ('v \<rightharpoonup> real)" where
  "factor_to_variable_values_not_from_leaf from_factor to_variable s =
     (case split_evidential_and_non_evidential_variables (var_obj s)
             (f_variables (fac_obj s from_factor)) [to_variable] of
        (from_evidential_variables, from_non_evidential_variables) \<Rightarrow>
     (case variable_to_factor_messages s (evidence_tuples s) of
        None \<Rightarrow> Inl KeyError
      | Some vms \<Rightarrow>
     (case get_from_nodes_to_node vms from_evidential_variables from_factor of
        Inl e \<Rightarrow> Inl e
      | Inr evidential_messages \<Rightarrow>
     (case get_from_nodes_to_node vms from_non_evidential_variables from_factor of
        Inl e \<Rightarrow> Inl e
      | Inr non_evidential_messages \<Rightarrow>
     (case max_message_of (var_obj s) non_evidential_messages of
        Inl e \<Rightarrow> Inl e
      | Inr max_message \<Rightarrow>
     (case from_evidential_variables_values_of (var_obj s) from_evidential_variables of
        Inl e \<Rightarrow> Inl e
      | Inr from_evidential_variables_values \<Rightarrow>
     (case messages_fsum evidential_messages from_evidential_variables_values of
        Inl e \<Rightarrow> Inl e
      | Inr evidential_messages_sum \<Rightarrow>
          dict_comprehension
            (\<lambda>value.
               case weighted_factor_fsum (fac_obj s from_factor) from_non_evidential_variables
                      non_evidential_messages
                      (evaluate_variables (var_obj s) from_non_evidential_variables)
                      max_message to_variable value of
                 Inl e \<Rightarrow> Inl e
               | Inr weighted \<Rightarrow>
                   (case py_log weighted of
                      Inl e \<Rightarrow> Inl e
                    | Inr l \<Rightarrow> Inr (evidential_messages_sum + max_message + l)))
            (domain (var_obj s to_variable)))))))))"

definition compute_factor_to_variable_message_not_from_leaf :: "fac_id \<Rightarrow> var_id \<Rightarrow> 'v engine \<Rightarrow> 'v result" where
  "compute_factor_to_variable_message_not_from_leaf from_factor to_variable s =
     (case factor_to_variable_messages s (evidence_tuples s) of
        None \<Rightarrow> Inl (KeyError, s)
      | Some ms \<Rightarrow>
          if \<not> contains ms from_factor to_variable then
            (case factor_to_variable_values_not_from_leaf from_factor to_variable s of
               Inl e \<Rightarrow> Inl (e, s)
             | Inr vals \<Rightarrow>
                 cache_factor_to_variable_message ms
                   \<lparr>from_node = from_factor, to_node = to_variable, msg_values = vals\<rparr> s)
          else Inr s)"

definition compute_variable_to_factor_message_from_leaf :: "var_id \<Rightarrow> fac_id \<Rightarrow> 'v engine \<Rightarrow> 'v result" where
  "compute_variable_to_factor_message_from_leaf from_variable to_factor s =
     (case variable_to_factor_messages s (evidence_tuples s) of
        None \<Rightarrow> Inl (KeyError, s)
      | Some ms \<Rightarrow>
          if \<not> contains ms from_variable to_factor then
            (case dict_comprehension (\<lambda>value. Inr 0) (domain (var_obj s from_variable)) of
               Inl e \<Rightarrow> Inl (e, s)
             | Inr vals \<Rightarrow>
                 cache_variable_to_factor_message ms
                   \<lparr>from_node = from_variable, to_node = to_factor, msg_values = vals\<rparr> s)
          else Inr s)"

definition variable_to_factor_values_not_from_leaf ::
  "var_id \<Rightarrow> fac_id \<Rightarrow> 'v engine \<Rightarrow> error + ('v \<rightharpoonup> real)" where
  "variable_to_factor_values_not_from_leaf from_variable to_factor s =
     (let from_factors = filter (\<lambda>factor. factor \<noteq> to_factor) (v_factors (var_obj s from_variable))
      in dict_comprehension
           (\<lambda>value.
              case factor_to_variable_messages s (evidence_tuples s) of
                None \<Rightarrow> Inl KeyError
              | Some fms \<Rightarrow>
                  (case get_from_nodes_to_node fms from_factors from_variable of
                     Inl e \<Rightarrow> Inl e
                   | Inr msgs \<Rightarrow>
                       (case mapM_err (\<lambda>message. message_call message value) msgs of
                          Inl e \<Rightarrow> Inl e
                        | Inr xs \<Rightarrow> Inr (sum_list xs))))
           (domain (var_obj s from_variable)))"

definition compute_variable_to_factor_message_not_from_leaf :: "var_id \<Rightarrow> fac_id \<Rightarrow> 'v engine \<Rightarrow> 'v result" where
  "compute_variable_to_factor_message_not_from_leaf from_variable to_factor s =
     (case variable_to_factor_messages s (evidence_tuples s) of
        None \<Rightarrow> Inl (KeyError, s)
      | Some ms \<Rightarrow>
          if \<not> contains ms from_variable to_factor then
            (case variable_to_factor_values_not_from_leaf from_variable to_factor s of
               Inl e \<Rightarrow> Inl (e, s)
             | Inr vals \<Rightarrow>
                 cache_variable_to_factor_message ms
                   \<lparr>from_node = from_variable, to_node = to_factor, msg_values = vals\<rparr> s)
          else Inr s)"


subsection \<open>Propagation\<close>

text \<open>The body of the loop over \<^verbatim>\<open>factor_leaves\<close>, and the loop.\<close>

definition propagate_factor_to_variable_message_from_leaf :: "fac_id \<Rightarrow> 'v engine \<Rightarrow> 'v result" where
  "propagate_factor_to_variable_message_from_leaf from_factor s =
     (case f_variables (fac_obj s from_factor) of
        [] \<Rightarrow> Inl (IndexError, s)
      | to_variable # _ \<Rightarrow>
          (case compute_factor_to_variable_message_from_leaf from_factor to_variable s of
             Inl e \<Rightarrow> Inl e
           | Inr s1 \<Rightarrow>
               Inr (extend_next_variables to_variable
                      (update_passing_factor_to_variable from_factor to_variable s1))))"

definition propagate_factor_to_variable_messages_from_leaves :: "'v engine \<Rightarrow> 'v result" where
  "propagate_factor_to_variable_messages_from_leaves s =
     for_each propagate_factor_to_variable_message_from_leaf (factor_leaves s) s"

definition propagate_factor_to_variable_message_not_from_leaf :: "fac_id \<Rightarrow> 'v engine \<Rightarrow> 'v result" where
  "propagate_factor_to_variable_message_not_from_leaf from_factor s =
     (case filter (\<lambda>variable. \<not> v_passed (var_obj s variable)) (f_variables (fac_obj s from_factor)) of
        [to_variable] \<Rightarrow>
          (case compute_factor_to_variable_message_not_from_leaf from_factor to_variable s of
             Inl e \<Rightarrow> Inl e
           | Inr s1 \<Rightarrow>
               Inr (extend_next_variables to_variable
                      (update_passing_factor_to_variable from_factor to_variable s1)))
      | _ \<Rightarrow> Inl (UnpackError, s))"

text \<open>The body of the loop over \<^verbatim>\<open>variable_leaves\<close> (the query is skipped), and the loop.\<close>

definition propagate_variable_to_factor_message_from_leaf :: "var_id \<Rightarrow> 'v engine \<Rightarrow> 'v result" where
  "propagate_variable_to_factor_message_from_leaf from_variable s =
     (if Some from_variable = query_variable s then Inr s
      else
        (case v_factors (var_obj s from_variable) of
           [] \<Rightarrow> Inl (IndexError, s)
         | to_factor # _ \<Rightarrow>
             (case compute_variable_to_factor_message_from_leaf from_variable to_factor s of
                Inl e \<Rightarrow> Inl e
              | Inr s1 \<Rightarrow>
                  Inr (extend_next_factors to_factor
                         (update_passing_variable_to_factor from_variable to_factor s1)))))"

definition propagate_variable_to_factor_messages_from_leaves :: "'v engine \<Rightarrow> 'v result" where
  "propagate_variable_to_factor_messages_from_leaves s =
     for_each propagate_variable_to_factor_message_from_leaf (variable_leaves s) s"

definition propagate_variable_to_factor_message_not_from_leaf :: "var_id \<Rightarrow> 'v engine \<Rightarrow> 'v result" where
  "propagate_variable_to_factor_message_not_from_leaf from_variable s =
     (case filter (\<lambda>factor. \<not> f_passed (fac_obj s factor)) (v_factors (var_obj s from_variable)) of
        [to_factor] \<Rightarrow>
          (case compute_variable_to_factor_message_not_from_leaf from_variable to_factor s of
             Inl e \<Rightarrow> Inl e
           | Inr s1 \<Rightarrow>
               Inr (extend_next_factors to_factor
                      (update_passing_variable_to_factor from_variable to_factor s1)))
      | _ \<Rightarrow> Inl (UnpackError, s))"

subsection \<open>The run\<close>

definition initialize_main_loop :: "'v engine \<Rightarrow> 'v result" where
  "initialize_main_loop s =
     (let s1 = s\<lparr>loop_passing := 0\<rparr>;
          s2 = s1\<lparr>next_factors := []\<rparr>;
          s3 = s2\<lparr>next_variables := []\<rparr>;
          s4 = initialize_factor_passing s3;
          s5 = initialize_variable_passing s4
      in case propagate_factor_to_variable_messages_from_leaves s5 of
           Inl e \<Rightarrow> Inl e
         | Inr s6 \<Rightarrow> propagate_variable_to_factor_messages_from_leaves s6)"

text \<open>One pass of the \<^verbatim>\<open>while\<close> loop of \<^verbatim>\<open>run\<close>.\<close>

definition loop_body :: "'v engine \<Rightarrow> 'v result" where
  "loop_body s =
     (let s1 = s\<lparr>loop_passing := loop_passing s + 1\<rparr>;
          s2 = s1\<lparr>from_factors := next_factors s1\<rparr>;
          s3 = s2\<lparr>next_factors := []\<rparr>;
          s4 = s3\<lparr>from_variables := next_variables s3\<rparr>;
          s5 = s4\<lparr>next_variables := []\<rparr>
      in case for_each propagate_factor_to_variable_message_not_from_leaf (from_factors s5) s5 of
           Inl e \<Rightarrow> Inl e
         | Inr s6 \<Rightarrow>
             for_each propagate_variable_to_factor_message_not_from_leaf (from_variables s6) s6)"

text \<open>
  The \<^verbatim>\<open>while\<close> loop has no bound: \<open>None\<close> is the run that never leaves the loop.
\<close>

partial_function (option) main_loop :: "'v engine \<Rightarrow> 'v result option" where
  "main_loop s =
     (case get_running_condition s of
        Inl e \<Rightarrow> Some (Inl (e, s))
      | Inr running \<Rightarrow>
          if running then
            (case loop_body s of
               Inl e \<Rightarrow> Some (Inl e)
             | Inr s' \<Rightarrow> main_loop s')
          else Some (Inr s))"

definition compute_distribution :: "'v engine \<Rightarrow> 'v result" where
  "compute_distribution s =
     (case factor_to_variable_messages s (evidence_tuples s) of
        None \<Rightarrow> Inl (KeyError, s)
      | Some ms \<Rightarrow>
     (case query_variable s of
        None \<Rightarrow> Inl (AttributeError, s)
      | Some q \<Rightarrow>
     (case get_from_nodes_to_node ms (v_factors (var_obj s q)) q of
        Inl e \<Rightarrow> Inl (e, s)
      | Inr factor_to_query_messages \<Rightarrow>
     (case dict_comprehension
             (\<lambda>value. case mapM_err (\<lambda>message. message_call message value)
                               factor_to_query_messages of
                        Inl e \<Rightarrow> Inl e
                      | Inr xs \<Rightarrow> Inr (exp (sum_list xs)))
             (domain (var_obj s q)) of
        Inl e \<Rightarrow> Inl (e, s)
      | Inr nn_values \<Rightarrow>
     (case mapM_err (dict_get nn_values) (domain (var_obj s q)) of
        Inl e \<Rightarrow> Inl (e, s)
      | Inr nns \<Rightarrow>
     (let norm_const = sum_list nns
      in case dict_comprehension
                (\<lambda>value. case dict_get nn_values value of
                           Inl e \<Rightarrow> Inl e
                         | Inr nn \<Rightarrow>
                             if norm_const = 0 then Inl ZeroDivisionError
                             else Inr (nn / norm_const))
                (domain (var_obj s q)) of
           Inl e \<Rightarrow> Inl (e, s)
         | Inr d \<Rightarrow>
             Inr (s\<lparr>distribution := Some (\<lambda>key. case key of [value] \<Rightarrow> d value | _ \<Rightarrow> None),
                    var_obj := (var_obj s)(q := (var_obj s q)\<lparr>v_passed := True\<rparr>)\<rparr>)))))))"

text \<open>
  \<^verbatim>\<open>run(self, print_info)\<close>. The result is \<open>None\<close> when the loop never ends; otherwise the
  engine after the run, or the exception and the engine at the time it is raised.
\<close>

definition run :: "bool \<Rightarrow> 'v engine \<Rightarrow> 'v result option" where
  "run p s =
     (case check_non_empty_query s of
        Inl e \<Rightarrow> Some (Inl (e, s))
      | Inr _ \<Rightarrow>
     (case check_one_variable_query s of
        Inl e \<Rightarrow> Some (Inl (e, s))
      | Inr _ \<Rightarrow>
     (case check_query_and_evidence_intersection s of
        Inl e \<Rightarrow> Some (Inl (e, s))
      | Inr _ \<Rightarrow>
     (case query s of
        [] \<Rightarrow> Some (Inl (IndexError, s))
      | q # _ \<Rightarrow>
          (let s1 = s\<lparr>query_variable := Some q\<rparr>;
               s2 = create_factor_to_variable_messages_cache_if_necessary s1;
               s3 = create_variable_to_factor_messages_cache_if_necessary s2;
               s4 = s3\<lparr>print_info := p\<rparr>;
               s5 = s4\<lparr>distribution := None\<rparr>
           in case initialize_main_loop s5 of
                Inl e \<Rightarrow> Some (Inl e)
              | Inr s6 \<Rightarrow>
                  (case main_loop s6 of
                     None \<Rightarrow> None
                   | Some (Inl e) \<Rightarrow> Some (Inl e)
                   | Some (Inr s7) \<Rightarrow> Some (compute_distribution s7)))))))"


subsection \<open>Elimination bucket\<close>

text \<open>
  The class \<^verbatim>\<open>Bucket\<close>. Its variables are identifiers into a table of variable objects,
  its input log-factors are factor objects. \<^verbatim>\<open>set_evidential_and_free_variables\<close> iterates
  over a Python set, whose order is not determined; the two fields it sets are taken as
  they are.
\<close>

record 'v bucket =
  b_variable :: var_id
  input_log_factors :: "'v factor list"
  evidential_variables :: "var_id list"
  free_variables :: "var_id list"

definition add_log_factor :: "'v factor \<Rightarrow> 'v bucket \<Rightarrow> 'v bucket" where
  "add_log_factor log_factor b = b\<lparr>input_log_factors := input_log_factors b @ [log_factor]\<rparr>"


definition has_free_variables :: "'v bucket \<Rightarrow> bool" where
  "has_free_variables b = (length (free_variables b) > 0)"








subsection \<open>Example graphs\<close>

text \<open>
  \<^verbatim>\<open>BP.__init__\<close>: empty message caches, no query variable, empty buffers. The fields of
  the base class start empty.
\<close>

definition init_engine ::
  "var_id list \<Rightarrow> fac_id list \<Rightarrow> (var_id \<Rightarrow> 'v variable) \<Rightarrow> (fac_id \<Rightarrow> 'v factor) \<Rightarrow> 'v engine" where
  "init_engine vs fs vtab ftab =
     \<lparr>variables = vs, factors = fs, var_obj = vtab, fac_obj = ftab,
      query = [], evidence_tuples = [],
      factor_to_variable_messages = Map.empty, variable_to_factor_messages = Map.empty,
      query_variable = None, distribution = None, print_info = False, loop_passing = 0,
      from_factors = [], next_factors = [], from_variables = [], next_variables = [],
      computed = []\<rparr>"

definition mk_variable :: "string \<Rightarrow> 'v list \<Rightarrow> fac_id list \<Rightarrow> bool \<Rightarrow> 'v variable" where
  "mk_variable n vals fs ev =
     \<lparr>name = n, domain = vals, v_factors = fs, evidential = ev, v_passed = False,
      v_incoming_messages_number = 0\<rparr>"

definition mk_factor :: "var_id list \<Rightarrow> ((var_id \<times> 'v) list \<Rightarrow> real) \<Rightarrow> 'v factor" where
  "mk_factor vs fn =
     \<lparr>f_variables = vs, f_function = fn, f_passed = False, f_incoming_messages_number = 0\<rparr>"

text \<open>
  The chain \<open>F1 - A - F0 - Q\<close> over binary domains: variable \<open>0\<close> is \<open>A\<close>, variable \<open>1\<close> is
  \<open>Q\<close>; factor \<open>0\<close> is \<open>F0(A, Q)\<close>, which is \<open>1\<close> where the two values agree and \<open>1/5\<close>
  elsewhere, and factor \<open>1\<close> is the leaf factor \<open>F1(A)\<close>, constantly \<open>1\<close>.
\<close>

definition chain_variables :: "var_id \<Rightarrow> int variable" where
  "chain_variables x =
     (if x = 0 then mk_variable ''A'' [0, 1] [1, 0] False
      else mk_variable ''Q'' [0, 1] [0] False)"

definition agree :: "(var_id \<times> int) list \<Rightarrow> real" where
  "agree binding = (case map snd binding of [a, b] \<Rightarrow> (if a = b then 1 else 1 / 5) | _ \<Rightarrow> 1)"

definition chain_factors :: "fac_id \<Rightarrow> int factor" where
  "chain_factors f =
     (if f = 0 then mk_factor [0, 1] agree else mk_factor [0] (\<lambda>binding. 1))"

definition chain_engine :: "int engine" where
  "chain_engine = (init_engine [0, 1] [0, 1] chain_variables chain_factors)\<lparr>query := [1]\<rparr>"


text \<open>
  A graph with a cycle: the variables \<open>A\<close> (\<open>0\<close>) and \<open>Q\<close> (\<open>1\<close>) are both joined by the
  two factors \<open>0\<close> and \<open>1\<close>.
\<close>

definition cycle_variables :: "var_id \<Rightarrow> int variable" where
  "cycle_variables x =
     (if x = 0 then mk_variable ''A'' [0, 1] [0, 1] False
      else mk_variable ''Q'' [0, 1] [0, 1] False)"

definition cycle_factors :: "fac_id \<Rightarrow> int factor" where
  "cycle_factors f = mk_factor [0, 1] agree"

definition cycle_engine :: "int engine" where
  "cycle_engine = (init_engine [0, 1] [0, 1] cycle_variables cycle_factors)\<lparr>query := [1]\<rparr>"

text \<open>
  The tree \<open>A - F - Q\<close> whose only factor is \<open>-1\<close> where \<open>A = 0\<close> and \<open>3\<close> where \<open>A = 1\<close>.
\<close>

definition skewed :: "(var_id \<times> int) list \<Rightarrow> real" where
  "skewed binding = (case map snd binding of [a, b] \<Rightarrow> (if a = 0 then - 1 else 3) | _ \<Rightarrow> 1)"

definition skewed_variables :: "var_id \<Rightarrow> int variable" where
  "skewed_variables x =
     (if x = 0 then mk_variable ''A'' [0, 1] [0] False else mk_variable ''Q'' [0, 1] [0] False)"

definition skewed_factors :: "fac_id \<Rightarrow> int factor" where
  "skewed_factors f = mk_factor [0, 1] skewed"

definition skewed_engine :: "int engine" where
  "skewed_engine = (init_engine [0, 1] [0] skewed_variables skewed_factors)\<lparr>query := [1]\<rparr>"

text \<open>
  A star around the factor \<open>F\<close> (\<open>0\<close>) over the variables \<open>E\<close> (\<open>0\<close>), \<open>A\<close> (\<open>1\<close>) and \<open>Q\<close>
  (\<open>2\<close>), with the evidence \<open>E = 1\<close>. The messages from \<open>E\<close> and from \<open>A\<close> to \<open>F\<close> are
  already in the store: the first has the value \<open>5\<close> at \<open>0\<close> and \<open>7\<close> at \<open>1\<close>, the second
  the value \<open>2\<close> at \<open>0\<close> and \<open>3\<close> at \<open>1\<close>. In \<open>mixed_engine\<close> the domain of the evidentiary
  variable \<open>E\<close> is still \<open>[0, 1]\<close>; in \<open>reduced_engine\<close> it is reduced to the observed
  value, \<open>[1]\<close>.
\<close>

definition mixed_variables :: "int list \<Rightarrow> var_id \<Rightarrow> int variable" where
  "mixed_variables e_domain x =
     (if x = 0 then mk_variable ''E'' e_domain [0] True
      else if x = 1 then mk_variable ''A'' [0, 1] [0] False
      else mk_variable ''Q'' [0, 1] [0] False)"

definition mixed_factors :: "fac_id \<Rightarrow> int factor" where
  "mixed_factors f = mk_factor [0, 1, 2] (\<lambda>binding. 1)"

definition mixed_store :: "int messages" where
  "mixed_store =
     [(0, 0) \<mapsto> \<lparr>from_node = 0, to_node = 0, msg_values = [0 \<mapsto> 5, 1 \<mapsto> 7]\<rparr>,
      (1, 0) \<mapsto> \<lparr>from_node = 1, to_node = 0, msg_values = [0 \<mapsto> 2, 1 \<mapsto> 3]\<rparr>]"

definition star_engine :: "int list \<Rightarrow> int engine" where
  "star_engine e_domain =
     (init_engine [0, 1, 2] [0] (mixed_variables e_domain) mixed_factors)
       \<lparr>query := [2], evidence_tuples := [(0, 1)],
        factor_to_variable_messages := [[(0, 1)] \<mapsto> Map.empty],
        variable_to_factor_messages := [[(0, 1)] \<mapsto> mixed_store]\<rparr>"

definition mixed_engine :: "int engine" where
  "mixed_engine = star_engine [0, 1]"

definition reduced_engine :: "int engine" where
  "reduced_engine = star_engine [1]"



subsection \<open>Auxiliary predicates\<close>

text \<open>
  A pass of the \<^verbatim>\<open>while\<close> loop that starts with the running condition true and both
  buffers \<^verbatim>\<open>_next_factors\<close> and \<^verbatim>\<open>_next_variables\<close> empty.
\<close>

definition stuck :: "'v engine \<Rightarrow> bool" where
  "stuck s =
     (get_running_condition s = Inr True \<and> next_factors s = [] \<and> next_variables s = [])"

text \<open>
  The value at \<open>v\<close> of the message stored from \<open>a\<close> to \<open>b\<close>. It is only read where that
  message is stored and has a value at \<open>v\<close>.
\<close>

definition message_value :: "'v messages \<Rightarrow> nat \<Rightarrow> nat \<Rightarrow> 'v \<Rightarrow> real" where
  "message_value ms a b v =
     (case ms (a, b) of
        None \<Rightarrow> 0
      | Some m \<Rightarrow> (case msg_values m v of None \<Rightarrow> 0 | Some r \<Rightarrow> r))"

text \<open>
  The values \<open>rs\<close>, in order, at \<open>v\<close> of the messages stored from the \<open>origins\<close> to \<open>to\<close>.
\<close>

definition incoming_values :: "'v messages \<Rightarrow> nat list \<Rightarrow> nat \<Rightarrow> 'v \<Rightarrow> real list \<Rightarrow> bool" where
  "incoming_values ms origins to v rs =
     list_all2 (\<lambda>a r. \<exists>m. ms (a, to) = Some m \<and> msg_values m v = Some r) origins rs"

text \<open>Every stored message is filed under its own origin and destination.\<close>

definition keyed :: "'v messages \<Rightarrow> bool" where
  "keyed ms = (\<forall>a b m. ms (a, b) = Some m \<longrightarrow> from_node m = a \<and> to_node m = b)"

text \<open>
  The interior factor-to-variable rule in the words of the spec, for the message from the
  factor \<open>f\<close> to the variable \<open>x\<close> at the value \<open>v\<close>, over the stored variable-to-factor
  messages \<open>vms\<close>; \<open>fixed\<close> gives the fixed value of an evidentiary variable. The factor is
  called with the binding of the free variables and of \<open>x\<close>, as the source calls it.
\<close>

definition interior_rule ::
  "'v engine \<Rightarrow> 'v messages \<Rightarrow> (var_id \<Rightarrow> 'v) \<Rightarrow> fac_id \<Rightarrow> var_id \<Rightarrow> 'v \<Rightarrow> real" where
  "interior_rule s vms fixed f x v =
     (case split_evidential_and_non_evidential_variables (var_obj s)
             (f_variables (fac_obj s f)) [x] of
        (evidentiary, free) \<Rightarrow>
          (let M = (if free = [] then 0
                    else Max (\<Union>u\<in>set free.
                                (\<lambda>w. message_value vms u f w) ` set (domain (var_obj s u))));
               evidential_sum = (\<Sum>e\<leftarrow>evidentiary. message_value vms e f (fixed e))
           in evidential_sum + M
                + ln (\<Sum>a\<leftarrow>evaluate_variables (var_obj s) free.
                        f_function (fac_obj s f) (zip free a @ [(x, v)])
                        * exp ((\<Sum>(u, w)\<leftarrow>zip free a. message_value vms u f w) - M))))"

text \<open>
  The chain engine after the leaf factor \<open>F1\<close> has sent its message to \<open>A\<close>, here with the
  values \<open>2\<close> and \<open>3\<close>.
\<close>

definition relay_engine :: "int engine" where
  "relay_engine =
     chain_engine
       \<lparr>factor_to_variable_messages :=
          [[] \<mapsto> [(1, 0) \<mapsto> \<lparr>from_node = 1, to_node = 0, msg_values = [0 \<mapsto> 2, 1 \<mapsto> 3]\<rparr>]],
        variable_to_factor_messages := [[] \<mapsto> Map.empty]\<rparr>"

subsection \<open>The history of computations\<close>

text \<open>
  The message filed in the store under a direction, an evidence key, an origin and a
  destination, if any.
\<close>

definition stored :: "'v engine \<Rightarrow> direction \<times> 'v evidence \<times> nat \<times> nat \<Rightarrow> 'v message option" where
  "stored s k =
     (case k of
        (d, ev, a, b) \<Rightarrow>
          (case (case d of
                   FactorToVariable \<Rightarrow> factor_to_variable_messages s ev
                 | VariableToFactor \<Rightarrow> variable_to_factor_messages s ev) of
             None \<Rightarrow> None
           | Some ms \<Rightarrow> ms (a, b)))"




text \<open>The engine a stateful method leaves behind, whether it returns or raises.\<close>

definition result_state :: "'v result \<Rightarrow> 'v engine" where
  "result_state r = (case r of Inl (e, s) \<Rightarrow> s | Inr s \<Rightarrow> s)"


text \<open>
  The sum under the logarithm of the interior rule, in the words of the spec: over the
  joint assignments of the free variables, the factor value times the exponential of the
  free message sum minus the maximum \<open>M\<close>.
\<close>

definition weighted_sum :: "'v engine \<Rightarrow> 'v messages \<Rightarrow> fac_id \<Rightarrow> var_id \<Rightarrow> 'v \<Rightarrow> real" where
  "weighted_sum s vms f x v =
     (case split_evidential_and_non_evidential_variables (var_obj s)
             (f_variables (fac_obj s f)) [x] of
        (evidentiary, free) \<Rightarrow>
          (let M = (if free = [] then 0
                    else Max (\<Union>u\<in>set free.
                                (\<lambda>w. message_value vms u f w) ` set (domain (var_obj s u))))
           in \<Sum>a\<leftarrow>evaluate_variables (var_obj s) free.
                 f_function (fac_obj s f) (zip free a @ [(x, v)])
                 * exp ((\<Sum>(u, w)\<leftarrow>zip free a. message_value vms u f w) - M)))"

text \<open>
  The tree \<open>G - A - F - Q\<close> after the variable \<open>A\<close> (\<open>0\<close>) has sent the message \<open>0\<close> to the
  factor \<open>F\<close> (\<open>0\<close>): \<open>F\<close> has the given function, the leaf factor \<open>G\<close> (\<open>1\<close>) is \<open>0\<close>
  everywhere.
\<close>

definition sign_variables :: "var_id \<Rightarrow> int variable" where
  "sign_variables x =
     (if x = 0 then mk_variable ''A'' [0, 1] [1, 0] False
      else mk_variable ''Q'' [0, 1] [0] False)"

definition sign_factors :: "((var_id \<times> int) list \<Rightarrow> real) \<Rightarrow> fac_id \<Rightarrow> int factor" where
  "sign_factors fn f = (if f = 0 then mk_factor [0, 1] fn else mk_factor [0] (\<lambda>binding. 0))"

definition sign_store :: "int messages" where
  "sign_store = [(0, 0) \<mapsto> \<lparr>from_node = 0, to_node = 0, msg_values = [0 \<mapsto> 0, 1 \<mapsto> 0]\<rparr>]"

definition sign_engine :: "((var_id \<times> int) list \<Rightarrow> real) \<Rightarrow> int engine" where
  "sign_engine fn =
     (init_engine [0, 1] [0, 1] sign_variables (sign_factors fn))
       \<lparr>query := [1],
        factor_to_variable_messages := [[] \<mapsto> Map.empty],
        variable_to_factor_messages := [[] \<mapsto> sign_store]\<rparr>"

text \<open>
  The leaf factor \<open>f\<close> with the single variable \<open>x\<close> has no message to \<open>x\<close> in the store of
  the current evidence, which exists, and is zero or negative at some value of the domain
  of \<open>x\<close>.
\<close>

definition doomed :: "fac_id \<Rightarrow> var_id \<Rightarrow> 'v engine \<Rightarrow> bool" where
  "doomed f x s =
     (factor_to_variable_messages s (evidence_tuples s) \<noteq> None
      \<and> stored s (FactorToVariable, evidence_tuples s, f, x) = None
      \<and> f_variables (fac_obj s f) = [x]
      \<and> (\<exists>v\<in>set (domain (var_obj s x)). f_function (fac_obj s f) [(x, v)] \<le> 0))"

section \<open>Properties\<close>

subsection \<open>Validation\<close>

text \<open>
  C8. A run with an empty query, with a query of more than one variable, or with a query
  variable that also appears in the evidence fails with a validation error. The engine
  returned with the error is the engine the run started from: no message has been
  computed and no distribution assembled.
\<close>

theorem run_rejects_invalid_query:
  assumes "query s = [] \<or> 1 < length (query s)
           \<or> set (query s) \<inter> fst ` set (evidence_tuples s) \<noteq> {}"
  shows "run p s =
           Some (Inl (ValidationError
                        (if query s = [] then EmptyQuery
                         else if 1 < length (query s) then NotOneVariableQuery
                         else QueryEvidenceIntersection), s))"
proof (cases "query s = []")
  case True
  then show ?thesis
    by (simp add: run_def check_non_empty_query_def)
next
  case nonempty: False
  show ?thesis
  proof (cases "1 < length (query s)")
    case True
    with nonempty show ?thesis
      by (simp add: run_def check_non_empty_query_def check_one_variable_query_def)
  next
    case False
    with nonempty have one: "length (query s) = 1"
      by (cases "query s") auto
    from assms nonempty False
    have "set (query s) \<inter> fst ` set (evidence_tuples s) \<noteq> {}" by blast
    with nonempty one show ?thesis
      by (simp add: run_def check_non_empty_query_def check_one_variable_query_def
          check_query_and_evidence_intersection_def)
  qed
qed

theorem run_rejects_invalid_query_witness:
  "run False (chain_engine\<lparr>evidence_tuples := [(1, 0)]\<rparr>) =
     Some (Inl (ValidationError QueryEvidenceIntersection,
                chain_engine\<lparr>evidence_tuples := [(1, 0)]\<rparr>))
   \<and> run False (chain_engine\<lparr>query := []\<rparr>) =
     Some (Inl (ValidationError EmptyQuery, chain_engine\<lparr>query := []\<rparr>))
   \<and> run False (chain_engine\<lparr>query := [0, 1]\<rparr>) =
     Some (Inl (ValidationError NotOneVariableQuery, chain_engine\<lparr>query := [0, 1]\<rparr>))"
  using run_rejects_invalid_query [of "chain_engine\<lparr>evidence_tuples := [(1, 0)]\<rparr>" False]
    run_rejects_invalid_query [of "chain_engine\<lparr>query := []\<rparr>" False]
    run_rejects_invalid_query [of "chain_engine\<lparr>query := [0, 1]\<rparr>" False]
  by (simp add: chain_engine_def init_engine_def)

text \<open>
  C9. If one of the three validation checks of \<^verbatim>\<open>run\<close> fails, the run ends with an error
  and the engine is the one the run started from: the message caches, the distribution,
  the query-variable field and the traversal fields of every variable and factor are
  unchanged. The checks come before the first assignment of \<^verbatim>\<open>run\<close>; the proof does not
  look at what they test.
\<close>

theorem run_validation_failure_keeps_state:
  assumes "check_non_empty_query s = Inl e
           \<or> check_one_variable_query s = Inl e
           \<or> check_query_and_evidence_intersection s = Inl e"
  shows "\<exists>e'. run p s = Some (Inl (e', s))"
  using assms by (auto simp: run_def split: sum.splits)

theorem run_validation_failure_keeps_state_witness:
  "check_one_variable_query (chain_engine\<lparr>query := [0, 1]\<rparr>)
     = Inl (ValidationError NotOneVariableQuery)
   \<and> (\<exists>e'. run True (chain_engine\<lparr>query := [0, 1]\<rparr>)
              = Some (Inl (e', chain_engine\<lparr>query := [0, 1]\<rparr>)))"
proof -
  have h: "check_one_variable_query (chain_engine\<lparr>query := [0, 1]\<rparr>)
             = Inl (ValidationError NotOneVariableQuery)"
    by (simp add: check_one_variable_query_def chain_engine_def init_engine_def)
  from h run_validation_failure_keeps_state
           [of "chain_engine\<lparr>query := [0, 1]\<rparr>" "ValidationError NotOneVariableQuery" True]
  show ?thesis by blast
qed

subsection \<open>The unbounded loop\<close>

lemma loop_body_stuck:
  "stuck s \<Longrightarrow> \<exists>s'. loop_body s = Inr s' \<and> stuck s'"
  by (auto simp: stuck_def loop_body_def get_running_condition_def split: option.splits)

lemma main_loop_returns_not_stuck:
  assumes "main_loop s = Some r"
  shows "\<not> stuck s"
  using assms
proof (induct rule: main_loop.raw_induct [rotated, consumes 1, case_names step])
  case (step loop s r)
  show ?case
  proof
    assume st: "stuck s"
    then obtain s' where b: "loop_body s = Inr s'" and st': "stuck s'"
      using loop_body_stuck by blast
    from st have "get_running_condition s = Inr True" by (simp add: stuck_def)
    with step(2) b have "loop s' = Some r" by simp
    from step(1)[OF this] st' show False by simp
  qed
qed

lemma main_loop_stuck: "stuck s \<Longrightarrow> main_loop s = None"
  using main_loop_returns_not_stuck [of s] by (cases "main_loop s") auto

lemmas init_defs =
  create_factor_to_variable_messages_cache_if_necessary_def
  create_variable_to_factor_messages_cache_if_necessary_def
  initialize_main_loop_def initialize_factor_passing_def initialize_variable_passing_def
  propagate_factor_to_variable_messages_from_leaves_def
  propagate_variable_to_factor_messages_from_leaves_def

lemma run_without_leaves:
  assumes "query s = [q]" and "q \<notin> fst ` set (evidence_tuples s)"
    and "q \<in> set (variables s)" and "v_factors (var_obj s q) \<noteq> []"
    and "factor_leaves s = []" and "variable_leaves s = []"
  shows "run p s = None"
proof -
  let ?s5 = "(create_variable_to_factor_messages_cache_if_necessary
               (create_factor_to_variable_messages_cache_if_necessary
                  (s\<lparr>query_variable := Some q\<rparr>)))
             \<lparr>print_info := p, distribution := None\<rparr>"
  let ?s6 = "initialize_variable_passing (initialize_factor_passing
               (?s5\<lparr>loop_passing := 0, next_factors := [], next_variables := []\<rparr>))"
  have fl: "factor_leaves ?s6 = []"
    using assms(5)
    by (simp add: factor_leaves_def init_defs variables_number_def filter_empty_conv)
  have vl: "variable_leaves ?s6 = []"
    using assms(6)
    by (simp add: variable_leaves_def init_defs factors_number_def filter_empty_conv)
  have init: "initialize_main_loop ?s5 = Inr ?s6"
    unfolding initialize_main_loop_def Let_def
      propagate_factor_to_variable_messages_from_leaves_def
      propagate_variable_to_factor_messages_from_leaves_def
    using fl vl by simp
  have st: "stuck ?s6"
    using assms(3,4)
    by (simp add: stuck_def get_running_condition_def init_defs factors_number_def)
  have checks: "check_non_empty_query s = Inr ()" "check_one_variable_query s = Inr ()"
    "check_query_and_evidence_intersection s = Inr ()"
    using assms(1,2)
    by (simp_all add: check_non_empty_query_def check_one_variable_query_def
        check_query_and_evidence_intersection_def)
  show ?thesis
    unfolding run_def Let_def using checks assms(1) init main_loop_stuck[OF st]
    by simp
qed

lemmas cycle_defs =
  init_engine_def mk_variable_def mk_factor_def cycle_variables_def cycle_factors_def
  cycle_engine_def factor_leaves_def variable_leaves_def factors_number_def
  variables_number_def

text \<open>
  C6, as the spec states it, fails on the two-variable cycle: the run is not rejected, it
  never leaves the loop.
\<close>

theorem run_on_cycle_is_not_rejected:
  "run False cycle_engine = None
   \<and> \<not> (\<exists>e s'. run False cycle_engine = Some (Inl (e, s')))"
  using run_without_leaves [of cycle_engine 1 False]
  by (simp add: cycle_defs)

text \<open>
  C6, amended. The run has neither an iteration bound nor a cycle detection. On a factor
  graph without leaves (no factor with exactly one variable, no variable with exactly one
  factor), with a valid query whose variable is in the graph and has an incident factor,
  the run never returns: it yields neither a result nor an error.
\<close>

theorem run_loops_forever_without_leaves:
  assumes "query s = [q]" and "q \<notin> fst ` set (evidence_tuples s)"
    and "q \<in> set (variables s)" and "v_factors (var_obj s q) \<noteq> []"
    and "factor_leaves s = []" and "variable_leaves s = []"
  shows "run p s = None"
  using assms by (rule run_without_leaves)

theorem run_loops_forever_without_leaves_witness:
  "query cycle_engine = [1] \<and> 1 \<notin> fst ` set (evidence_tuples cycle_engine)
   \<and> 1 \<in> set (variables cycle_engine) \<and> v_factors (var_obj cycle_engine 1) \<noteq> []
   \<and> factor_leaves cycle_engine = [] \<and> variable_leaves cycle_engine = []
   \<and> run True cycle_engine = None"
  using run_loops_forever_without_leaves [of cycle_engine 1 True]
  by (simp add: cycle_defs)

subsection \<open>Comprehensions and the message store\<close>

lemma mapM_err_complete:
  "list_all2 (\<lambda>x y. f x = Inr y) xs ys \<Longrightarrow> mapM_err f xs = Inr ys"
  by (induction rule: list_all2_induct) auto

lemma mapM_err_sound:
  "mapM_err f xs = Inr ys \<Longrightarrow> list_all2 (\<lambda>x y. f x = Inr y) xs ys"
  by (induction xs arbitrary: ys) (auto split: sum.splits)

lemma mapM_err_Inr:
  "mapM_err f xs = Inr ys \<longleftrightarrow> list_all2 (\<lambda>x y. f x = Inr y) xs ys"
  using mapM_err_complete mapM_err_sound by blast

lemma mapM_err_length: "mapM_err f xs = Inr ys \<Longrightarrow> length ys = length xs"
  by (simp add: mapM_err_Inr list_all2_lengthD)

lemma dict_of_zip:
  assumes "list_all2 (\<lambda>x y. f x = Inr y) ks ys"
  shows "dict_of (zip ks ys) k = (if k \<in> set ks then Some (projr (f k)) else None)"
proof (cases "k \<in> set ks")
  case False
  have "k \<notin> fst ` set (rev (zip ks ys))"
    using False by (auto dest: set_zip_leftD)
  then have "map_of (rev (zip ks ys)) k = None"
    by (metis map_of_eq_None_iff)
  with False show ?thesis by (simp add: dict_of_def)
next
  case True
  from assms have len: "length ks = length ys" by (rule list_all2_lengthD)
  with True have "k \<in> fst ` set (rev (zip ks ys))"
    by (simp add: image_iff) (metis fst_conv in_set_impl_in_set_zip1)
  then obtain y where y: "map_of (rev (zip ks ys)) k = Some y"
    using map_of_eq_None_iff [of "rev (zip ks ys)" k] by (cases "map_of (rev (zip ks ys)) k") auto
  then have "(k, y) \<in> set (zip ks ys)"
    using map_of_SomeD by fastforce
  with assms have "f k = Inr y"
    by (auto simp: list_all2_iff)
  with y True show ?thesis by (simp add: dict_of_def)
qed

lemma dict_comprehension_Inr:
  assumes "dict_comprehension f ks = Inr d"
  shows "d k = (if k \<in> set ks then Some (projr (f k)) else None)"
    and "k \<in> set ks \<Longrightarrow> f k = Inr (projr (f k))"
proof -
  from assms obtain ys where ys: "mapM_err f ks = Inr ys" and d: "d = dict_of (zip ks ys)"
    by (auto simp: dict_comprehension_def split: sum.splits)
  from ys have l: "list_all2 (\<lambda>x y. f x = Inr y) ks ys" by (simp add: mapM_err_Inr)
  from dict_of_zip [OF l] d show "d k = (if k \<in> set ks then Some (projr (f k)) else None)" by simp
  show "f k = Inr (projr (f k))" if "k \<in> set ks"
  proof -
    from that l obtain y where "f k = Inr y"
      by (auto simp: list_all2_conv_all_nth in_set_conv_nth)
    then show ?thesis by simp
  qed
qed

lemma get_from_nodes_to_node_Inr:
  "get_from_nodes_to_node ms from_nodes to = Inr msgs
     \<longleftrightarrow> list_all2 (\<lambda>a m. ms (a, to) = Some m) from_nodes msgs"
  unfolding get_from_nodes_to_node_def mapM_err_Inr
  by (rule arg_cong [where f = "\<lambda>P. list_all2 P from_nodes msgs"])
     (auto simp: fun_eq_iff split: option.splits)

lemma message_calls_Inr:
  "mapM_err (\<lambda>m. message_call m v) msgs = Inr rs
     \<longleftrightarrow> list_all2 (\<lambda>m r. msg_values m v = Some r) msgs rs"
  unfolding mapM_err_Inr
  by (rule arg_cong [where f = "\<lambda>P. list_all2 P msgs rs"])
     (auto simp: fun_eq_iff message_call_def split: option.splits)

lemma incoming_values_compose:
  assumes "list_all2 (\<lambda>a m. ms (a, to) = Some m) origins msgs"
    and "list_all2 (\<lambda>m r. msg_values m v = Some r) msgs rs"
  shows "incoming_values ms origins to v rs"
  using assms unfolding incoming_values_def list_all2_conv_all_nth by auto

subsection \<open>The message rules\<close>

lemma mapM_err_eq_map:
  assumes "mapM_err g xs = Inr ys" and "\<And>x y. x \<in> set xs \<Longrightarrow> g x = Inr y \<Longrightarrow> y = h x"
  shows "ys = map h xs"
  using assms by (induction xs arbitrary: ys) (auto split: sum.splits)

lemma py_max_Inr:
  assumes "py_max xs = Inr r"
  shows "xs \<noteq> [] \<and> r = Max (set xs)"
proof (cases xs)
  case Nil
  with assms show ?thesis by simp
next
  case (Cons a list)
  have "fold max list a = Max (set (a # list))"
    by (simp only: Max.set_eq_fold)
  with assms Cons show ?thesis by simp
qed

lemma py_log_Inr: "py_log w = Inr l \<longleftrightarrow> 0 < w \<and> l = ln w"
  by (auto simp: py_log_def)

lemma message_call_value:
  "vms (u, f) = Some m \<Longrightarrow> message_call m w = Inr r \<Longrightarrow> message_value vms u f w = r"
  by (auto simp: message_call_def message_value_def split: option.splits)

lemma messages_fsum_value:
  assumes "list_all2 (\<lambda>u m. vms (u, f) = Some m) us ms"
    and "messages_fsum ms ws = Inr r"
  shows "r = (\<Sum>(u, w)\<leftarrow>zip us ws. message_value vms u f w)"
  using assms
proof (induction arbitrary: ws r rule: list_all2_induct)
  case Nil
  then show ?case by (simp add: messages_fsum_def)
next
  case (Cons u us m ms)
  show ?case
  proof (cases ws)
    case Nil
    with Cons.prems show ?thesis by (simp add: messages_fsum_def)
  next
    case (Cons w ws')
    from Cons.prems Cons obtain r1 rs where
      r1: "message_call m w = Inr r1"
      and rs: "mapM_err (\<lambda>(msg, val). message_call msg val) (zip ms ws') = Inr rs"
      and r: "r = r1 + sum_list rs"
      by (auto simp: messages_fsum_def split: sum.splits)
    from rs have "messages_fsum ms ws' = Inr (sum_list rs)"
      by (simp add: messages_fsum_def)
    from Cons.IH [OF this] have "sum_list rs = (\<Sum>(u, w)\<leftarrow>zip us ws'. message_value vms u f w)" .
    with r message_call_value [where vms = vms, OF Cons.hyps(1) r1] Cons show ?thesis by simp
  qed
qed

lemma max_message_of_value:
  assumes k: "keyed vms"
    and l: "list_all2 (\<lambda>u m. vms (u, f) = Some m) free nms"
    and m: "max_message_of tab nms = Inr M"
  shows "M = (if free = [] then 0
              else Max (\<Union>u\<in>set free. (\<lambda>w. message_value vms u f w) ` set (domain (tab u))))"
proof (cases "free = []")
  case True
  with l have "nms = []" by simp
  with m True show ?thesis by (simp add: max_message_of_def)
next
  case False
  with l have ne: "nms \<noteq> []" by auto
  let ?pairs = "concat (map (\<lambda>message. map (\<lambda>value. (message, value))
                                          (domain (tab (from_node message)))) nms)"
  from m ne obtain xs where
    xs: "mapM_err (\<lambda>(message, value). message_call message value) ?pairs = Inr xs"
    and mx: "py_max xs = Inr M"
    by (auto simp: max_message_of_def split: sum.splits)
  have origin: "\<exists>u\<in>set free. vms (u, f) = Some m' \<and> from_node m' = u" if "m' \<in> set nms" for m'
  proof -
    from that obtain i where i: "i < length nms" "nms ! i = m'"
      by (auto simp: in_set_conv_nth)
    from l i have "i < length free" "vms (free ! i, f) = Some m'"
      by (auto simp: list_all2_conv_all_nth)
    with k show ?thesis by (auto simp: keyed_def)
  qed
  have stored: "\<exists>m'\<in>set nms. vms (u, f) = Some m' \<and> from_node m' = u" if "u \<in> set free" for u
  proof -
    from that obtain i where i: "i < length free" "free ! i = u"
      by (auto simp: in_set_conv_nth)
    from l i have "i < length nms" "vms (u, f) = Some (nms ! i)"
      by (auto simp: list_all2_conv_all_nth)
    with k show ?thesis by (auto simp: keyed_def)
  qed
  have "xs = map (\<lambda>(m', w). message_value vms (from_node m') f w) ?pairs"
  proof (rule mapM_err_eq_map [OF xs])
    fix p y
    assume p: "p \<in> set ?pairs" and c: "(case p of (message, value) \<Rightarrow> message_call message value) = Inr y"
    obtain m' w where pw: "p = (m', w)" by (cases p)
    with p have "m' \<in> set nms" by auto
    from origin [OF this] have "vms (from_node m', f) = Some m'" by auto
    from message_call_value [where vms = vms, OF this] c pw
    show "y = (case p of (m', w) \<Rightarrow> message_value vms (from_node m') f w)" by simp
  qed
  then have "set xs = (\<lambda>(m', w). message_value vms (from_node m') f w) ` set ?pairs" by simp
  also have "\<dots> = (\<Union>u\<in>set free. (\<lambda>w. message_value vms u f w) ` set (domain (tab u)))"
  proof (intro set_eqI iffI)
    fix r
    assume "r \<in> (\<lambda>(m', w). message_value vms (from_node m') f w) ` set ?pairs"
    then obtain m' w where "m' \<in> set nms" "w \<in> set (domain (tab (from_node m')))"
      "r = message_value vms (from_node m') f w" by auto
    with origin [of m'] show "r \<in> (\<Union>u\<in>set free. (\<lambda>w. message_value vms u f w) ` set (domain (tab u)))"
      by auto
  next
    fix r
    assume "r \<in> (\<Union>u\<in>set free. (\<lambda>w. message_value vms u f w) ` set (domain (tab u)))"
    then obtain u w where u: "u \<in> set free" and w: "w \<in> set (domain (tab u))"
      and r: "r = message_value vms u f w" by auto
    from stored [OF u] obtain m' where "m' \<in> set nms" "from_node m' = u" by auto
    with w r show "r \<in> (\<lambda>(m', w). message_value vms (from_node m') f w) ` set ?pairs"
      by (auto simp: image_iff intro!: bexI [of _ m'])
  qed
  finally have "set xs = (\<Union>u\<in>set free. (\<lambda>w. message_value vms u f w) ` set (domain (tab u)))" .
  with py_max_Inr [OF mx] False show ?thesis by simp
qed

lemma first_values_Inr:
  assumes "from_evidential_variables_values_of tab es = Inr ws"
  shows "ws = map (\<lambda>e. hd (domain (tab e))) es \<and> (\<forall>e\<in>set es. domain (tab e) \<noteq> [])"
  using assms unfolding from_evidential_variables_values_of_def
  by (induction es arbitrary: ws) (auto split: sum.splits list.splits)

lemma weighted_factor_fsum_value:
  assumes l: "list_all2 (\<lambda>u m. vms (u, f) = Some m) free nms"
    and w: "weighted_factor_fsum fobj free nms as M x v = Inr W"
  shows "W = (\<Sum>a\<leftarrow>as. f_function fobj (zip free a @ [(x, v)])
                       * exp ((\<Sum>(u, w)\<leftarrow>zip free a. message_value vms u f w) - M))"
proof -
  let ?g = "\<lambda>a. case messages_fsum nms a of
                  Inl e \<Rightarrow> Inl e
                | Inr msum \<Rightarrow> Inr (f_function fobj (zip free a @ [(x, v)]) * exp (msum - M))"
  from w obtain ts where ts: "mapM_err ?g as = Inr ts" and W: "W = sum_list ts"
    by (auto simp: weighted_factor_fsum_def split: sum.splits)
  have "ts = map (\<lambda>a. f_function fobj (zip free a @ [(x, v)])
                       * exp ((\<Sum>(u, w)\<leftarrow>zip free a. message_value vms u f w) - M)) as"
  proof (rule mapM_err_eq_map [OF ts])
    fix a y
    assume "?g a = Inr y"
    then obtain msum where ms: "messages_fsum nms a = Inr msum"
      and y: "y = f_function fobj (zip free a @ [(x, v)]) * exp (msum - M)"
      by (auto split: sum.splits)
    from messages_fsum_value [OF l ms] y
    show "y = f_function fobj (zip free a @ [(x, v)])
                * exp ((\<Sum>(u, w)\<leftarrow>zip free a. message_value vms u f w) - M)" by simp
  qed
  with W show ?thesis by simp
qed

lemma interior_values:
  assumes c: "factor_to_variable_values_not_from_leaf f x s = Inr vals"
    and vms: "variable_to_factor_messages s (evidence_tuples s) = Some vms"
    and k: "keyed vms"
    and v: "v \<in> set (domain (var_obj s x))"
  shows "(\<forall>e\<in>set (fst (split_evidential_and_non_evidential_variables (var_obj s)
                          (f_variables (fac_obj s f)) [x])). domain (var_obj s e) \<noteq> [])
         \<and> vals v = Some (interior_rule s vms (\<lambda>e. hd (domain (var_obj s e))) f x v)"
proof -
  obtain ev free where sp: "split_evidential_and_non_evidential_variables (var_obj s)
                          (f_variables (fac_obj s f)) [x] = (ev, free)"
    by (cases "split_evidential_and_non_evidential_variables (var_obj s)
                          (f_variables (fac_obj s f)) [x]")
  let ?G = "\<lambda>nms M evsum value.
               case weighted_factor_fsum (fac_obj s f) free nms
                      (evaluate_variables (var_obj s) free) M x value of
                 Inl e \<Rightarrow> Inl e
               | Inr weighted \<Rightarrow>
                   (case py_log weighted of
                      Inl e \<Rightarrow> Inl e
                    | Inr l \<Rightarrow> Inr (evsum + M + l))"
  from c sp vms obtain ems nms M ws evsum where
    ems: "get_from_nodes_to_node vms ev f = Inr ems"
    and nms: "get_from_nodes_to_node vms free f = Inr nms"
    and M: "max_message_of (var_obj s) nms = Inr M"
    and ws: "from_evidential_variables_values_of (var_obj s) ev = Inr ws"
    and evsum: "messages_fsum ems ws = Inr evsum"
    and d: "dict_comprehension (?G nms M evsum) (domain (var_obj s x)) = Inr vals"
    by (auto simp: factor_to_variable_values_not_from_leaf_def split: sum.splits)
  from ems have le: "list_all2 (\<lambda>u m. vms (u, f) = Some m) ev ems"
    by (simp add: get_from_nodes_to_node_Inr)
  from nms have ln: "list_all2 (\<lambda>u m. vms (u, f) = Some m) free nms"
    by (simp add: get_from_nodes_to_node_Inr)
  from first_values_Inr [OF ws] have ws_eq: "ws = map (\<lambda>e. hd (domain (var_obj s e))) ev"
    and ne: "\<forall>e\<in>set ev. domain (var_obj s e) \<noteq> []" by simp_all
  have M_eq: "M = (if free = [] then 0
              else Max (\<Union>u\<in>set free. (\<lambda>w. message_value vms u f w) ` set (domain (var_obj s u))))"
    by (rule max_message_of_value [OF k ln M])
  have ev_eq: "evsum = (\<Sum>e\<leftarrow>ev. message_value vms e f (hd (domain (var_obj s e))))"
    using messages_fsum_value [OF le evsum] ws_eq
    by (simp add: zip_map2 zip_same_conv_map comp_def)
  from dict_comprehension_Inr [OF d] v
  have v1: "vals v = Some (projr (?G nms M evsum v))"
    and v2: "?G nms M evsum v = Inr (projr (?G nms M evsum v))" by simp_all
  from v2 obtain W l where
    W: "weighted_factor_fsum (fac_obj s f) free nms (evaluate_variables (var_obj s) free) M x v = Inr W"
    and l: "py_log W = Inr l" and g: "?G nms M evsum v = Inr (evsum + M + l)"
    by (auto split: sum.splits)
  from l have l_eq: "l = ln W" by (simp add: py_log_Inr)
  note W_eq = weighted_factor_fsum_value [OF ln W]
  have "interior_rule s vms (\<lambda>e. hd (domain (var_obj s e))) f x v = evsum + M + l"
    unfolding interior_rule_def sp Let_def prod.case
    using M_eq ev_eq l_eq W_eq by simp
  with v1 g ne sp show ?thesis by simp
qed

lemma compute_factor_to_variable_message_not_from_leaf_Inr:
  assumes "factor_to_variable_messages s (evidence_tuples s) = Some ms"
    and "\<not> contains ms f x"
    and "compute_factor_to_variable_message_not_from_leaf f x s = Inr s'"
  shows "\<exists>vals. factor_to_variable_values_not_from_leaf f x s = Inr vals
           \<and> factor_to_variable_messages s' (evidence_tuples s')
               = Some (ms((f, x) \<mapsto> \<lparr>from_node = f, to_node = x, msg_values = vals\<rparr>))"
  using assms
  by (auto simp: compute_factor_to_variable_message_not_from_leaf_def
      cache_factor_to_variable_message_def cache_def split: sum.splits)

lemmas star_defs =
  reduced_engine_def mixed_engine_def star_engine_def init_engine_def mixed_variables_def
  mixed_factors_def mixed_store_def mk_variable_def mk_factor_def

lemmas chain_defs =
  relay_engine_def chain_engine_def init_engine_def chain_variables_def chain_factors_def
  agree_def mk_variable_def mk_factor_def

lemmas interior_defs =
  compute_factor_to_variable_message_not_from_leaf_def
  factor_to_variable_values_not_from_leaf_def cache_factor_to_variable_message_def cache_def
  contains_def get_from_nodes_to_node_def dict_comprehension_def dict_of_def py_log_def
  message_call_def max_message_of_def from_evidential_variables_values_of_def
  messages_fsum_def weighted_factor_fsum_def
  split_evidential_and_non_evidential_variables_def evaluate_variables_def

lemmas relay_defs =
  compute_variable_to_factor_message_not_from_leaf_def
  compute_variable_to_factor_message_from_leaf_def
  variable_to_factor_values_not_from_leaf_def cache_variable_to_factor_message_def cache_def
  contains_def get_from_nodes_to_node_def dict_comprehension_def dict_of_def message_call_def

lemma keyed_cache:
  "keyed ms \<Longrightarrow> cache ms m = Inr ms' \<Longrightarrow> keyed ms'"
  by (auto simp: keyed_def cache_def split: if_splits)

lemma keyed_mixed_store: "keyed mixed_store"
  by (simp add: keyed_def mixed_store_def)

text \<open>
  C5. A variable-to-factor message from \<open>x\<close> to \<open>f\<close> that the engine computes has, at every
  value \<open>v\<close> of the domain of \<open>x\<close>, the sum of the values at \<open>v\<close> of the stored messages to
  \<open>x\<close> from its incident factors other than \<open>f\<close>; the leaf computation gives \<open>0\<close> at every
  value of the domain.
\<close>

theorem variable_to_factor_rule:
  assumes "variable_to_factor_messages s (evidence_tuples s) = Some ms"
    and "\<not> contains ms x f"
    and "v \<in> set (domain (var_obj s x))"
  shows "(compute_variable_to_factor_message_not_from_leaf x f s = Inr s' \<longrightarrow>
           (\<exists>ms' m fms rs.
              variable_to_factor_messages s' (evidence_tuples s') = Some ms'
              \<and> ms' (x, f) = Some m
              \<and> factor_to_variable_messages s (evidence_tuples s) = Some fms
              \<and> incoming_values fms (filter (\<lambda>g. g \<noteq> f) (v_factors (var_obj s x))) x v rs
              \<and> msg_values m v = Some (sum_list rs)))
       \<and> (compute_variable_to_factor_message_from_leaf x f s = Inr s' \<longrightarrow>
           (\<exists>ms' m.
              variable_to_factor_messages s' (evidence_tuples s') = Some ms'
              \<and> ms' (x, f) = Some m
              \<and> msg_values m v = Some 0))"
proof (intro conjI impI)
  assume c: "compute_variable_to_factor_message_not_from_leaf x f s = Inr s'"
  let ?F = "\<lambda>value.
              case factor_to_variable_messages s (evidence_tuples s) of
                None \<Rightarrow> Inl KeyError
              | Some fms \<Rightarrow>
                  (case get_from_nodes_to_node fms (filter (\<lambda>g. g \<noteq> f) (v_factors (var_obj s x))) x of
                     Inl e \<Rightarrow> Inl e
                   | Inr msgs \<Rightarrow>
                       (case mapM_err (\<lambda>message. message_call message value) msgs of
                          Inl e \<Rightarrow> Inl e
                        | Inr xs \<Rightarrow> Inr (sum_list xs)))"
  from c assms(1,2) obtain vals where
    vals: "dict_comprehension ?F (domain (var_obj s x)) = Inr vals"
    and s': "s' = s\<lparr>variable_to_factor_messages :=
                      (variable_to_factor_messages s)(evidence_tuples s \<mapsto>
                         ms((x, f) \<mapsto> \<lparr>from_node = x, to_node = f, msg_values = vals\<rparr>)),
                    computed := computed s @ [(VariableToFactor, evidence_tuples s, x, f)]\<rparr>"
    by (auto simp: compute_variable_to_factor_message_not_from_leaf_def
        variable_to_factor_values_not_from_leaf_def cache_variable_to_factor_message_def
        cache_def Let_def split: sum.splits)
  from dict_comprehension_Inr [OF vals] assms(3)
  have v1: "vals v = Some (projr (?F v))" and v2: "?F v = Inr (projr (?F v))" by simp_all
  from v2 obtain fms msgs rs where
    fms: "factor_to_variable_messages s (evidence_tuples s) = Some fms"
    and msgs: "get_from_nodes_to_node fms (filter (\<lambda>g. g \<noteq> f) (v_factors (var_obj s x))) x = Inr msgs"
    and rs: "mapM_err (\<lambda>message. message_call message v) msgs = Inr rs"
    and r: "?F v = Inr (sum_list rs)"
    by (auto split: option.splits sum.splits)
  have "incoming_values fms (filter (\<lambda>g. g \<noteq> f) (v_factors (var_obj s x))) x v rs"
    using msgs rs by (simp add: get_from_nodes_to_node_Inr message_calls_Inr incoming_values_compose)
  with v1 r fms s' show "\<exists>ms' m fms rs.
              variable_to_factor_messages s' (evidence_tuples s') = Some ms'
              \<and> ms' (x, f) = Some m
              \<and> factor_to_variable_messages s (evidence_tuples s) = Some fms
              \<and> incoming_values fms (filter (\<lambda>g. g \<noteq> f) (v_factors (var_obj s x))) x v rs
              \<and> msg_values m v = Some (sum_list rs)"
    by auto
next
  assume c: "compute_variable_to_factor_message_from_leaf x f s = Inr s'"
  let ?Z = "\<lambda>value::'a. Inr 0 :: error + real"
  from c assms(1,2) obtain vals where
    vals: "dict_comprehension ?Z (domain (var_obj s x)) = Inr vals"
    and s': "s' = s\<lparr>variable_to_factor_messages :=
                      (variable_to_factor_messages s)(evidence_tuples s \<mapsto>
                         ms((x, f) \<mapsto> \<lparr>from_node = x, to_node = f, msg_values = vals\<rparr>)),
                    computed := computed s @ [(VariableToFactor, evidence_tuples s, x, f)]\<rparr>"
    by (auto simp: compute_variable_to_factor_message_from_leaf_def
        cache_variable_to_factor_message_def cache_def split: sum.splits)
  from dict_comprehension_Inr(1) [OF vals, of v] assms(3)
  have "vals v = Some 0" by simp
  with s' show "\<exists>ms' m.
              variable_to_factor_messages s' (evidence_tuples s') = Some ms'
              \<and> ms' (x, f) = Some m
              \<and> msg_values m v = Some 0"
    by auto
qed

theorem variable_to_factor_rule_witness:
  "\<exists>s1 s2. compute_variable_to_factor_message_not_from_leaf 0 0 relay_engine = Inr s1
     \<and> compute_variable_to_factor_message_from_leaf 1 0 relay_engine = Inr s2
     \<and> (\<exists>ms' m fms rs.
           variable_to_factor_messages s1 (evidence_tuples s1) = Some ms'
           \<and> ms' (0, 0) = Some m
           \<and> factor_to_variable_messages relay_engine (evidence_tuples relay_engine) = Some fms
           \<and> incoming_values fms
                (filter (\<lambda>g. g \<noteq> 0) (v_factors (var_obj relay_engine 0))) 0 (1::int) rs
           \<and> msg_values m 1 = Some (sum_list rs))
     \<and> (\<exists>ms' m.
           variable_to_factor_messages s2 (evidence_tuples s2) = Some ms'
           \<and> ms' (1, 0) = Some m
           \<and> msg_values m 1 = Some 0)"
proof -
  let ?c1 = "compute_variable_to_factor_message_not_from_leaf 0 0 relay_engine"
  let ?c2 = "compute_variable_to_factor_message_from_leaf 1 0 relay_engine"
  have st: "variable_to_factor_messages relay_engine (evidence_tuples relay_engine)
              = Some Map.empty"
    by (simp add: chain_defs)
  have nc: "\<not> contains (Map.empty :: int messages) 0 0" "\<not> contains (Map.empty :: int messages) 1 0"
    by (simp_all add: contains_def)
  have d: "(1::int) \<in> set (domain (var_obj relay_engine 0))"
    "(1::int) \<in> set (domain (var_obj relay_engine 1))"
    by (simp_all add: chain_defs)
  have "\<not> isl ?c1" by (simp add: chain_defs relay_defs)
  then have c1: "?c1 = Inr (projr ?c1)" by simp
  have "\<not> isl ?c2" by (simp add: chain_defs relay_defs)
  then have c2: "?c2 = Inr (projr ?c2)" by simp
  from variable_to_factor_rule [OF st nc(1) d(1), of "projr ?c1"] c1
    variable_to_factor_rule [OF st nc(2) d(2), of "projr ?c2"] c2
  show ?thesis by blast
qed

text \<open>
  C2. An interior factor-to-variable message from \<open>f\<close> to \<open>x\<close> that the engine computes has,
  at every value \<open>v\<close> of the domain of \<open>x\<close>, the value \<open>interior_rule\<close> of the spec:
  evidential sum, plus \<open>M\<close>, plus the logarithm of the sum over the joint assignments of
  the free variables of the factor value times the exponential of the free message sum
  minus \<open>M\<close>. Every evidentiary variable of \<open>f\<close> is taken to have its domain reduced to its
  fixed value.
\<close>

theorem interior_factor_to_variable_rule:
  assumes "factor_to_variable_messages s (evidence_tuples s) = Some ms"
    and "\<not> contains ms f x"
    and "compute_factor_to_variable_message_not_from_leaf f x s = Inr s'"
    and "variable_to_factor_messages s (evidence_tuples s) = Some vms"
    and "keyed vms"
    and "v \<in> set (domain (var_obj s x))"
    and "\<forall>e\<in>set (fst (split_evidential_and_non_evidential_variables (var_obj s)
                         (f_variables (fac_obj s f)) [x])). domain (var_obj s e) = [fixed e]"
  shows "\<exists>ms' m. factor_to_variable_messages s' (evidence_tuples s') = Some ms'
           \<and> ms' (f, x) = Some m
           \<and> msg_values m v = Some (interior_rule s vms fixed f x v)"
proof -
  from compute_factor_to_variable_message_not_from_leaf_Inr [OF assms(1-3)]
  obtain vals where vals: "factor_to_variable_values_not_from_leaf f x s = Inr vals"
    and s': "factor_to_variable_messages s' (evidence_tuples s')
               = Some (ms((f, x) \<mapsto> \<lparr>from_node = f, to_node = x, msg_values = vals\<rparr>))"
    by blast
  from interior_values [OF vals assms(4-6)]
  have "vals v = Some (interior_rule s vms (\<lambda>e. hd (domain (var_obj s e))) f x v)" by simp
  also have "interior_rule s vms (\<lambda>e. hd (domain (var_obj s e))) f x v
               = interior_rule s vms fixed f x v"
  proof -
    obtain ev free where sp: "split_evidential_and_non_evidential_variables (var_obj s)
                          (f_variables (fac_obj s f)) [x] = (ev, free)"
      by (cases "split_evidential_and_non_evidential_variables (var_obj s)
                          (f_variables (fac_obj s f)) [x]")
    with assms(7) have "\<forall>e\<in>set ev. hd (domain (var_obj s e)) = fixed e" by simp
    then have "map (\<lambda>e. message_value vms e f (hd (domain (var_obj s e)))) ev
                 = map (\<lambda>e. message_value vms e f (fixed e)) ev" by simp
    then have "(\<Sum>e\<leftarrow>ev. message_value vms e f (hd (domain (var_obj s e))))
                 = (\<Sum>e\<leftarrow>ev. message_value vms e f (fixed e))" by (rule arg_cong)
    then show ?thesis unfolding interior_rule_def sp prod.case Let_def by (simp only:)
  qed
  finally show ?thesis using s' by simp
qed

theorem interior_factor_to_variable_rule_witness:
  "\<exists>s' ms' m. compute_factor_to_variable_message_not_from_leaf 0 2 reduced_engine = Inr s'
     \<and> factor_to_variable_messages s' (evidence_tuples s') = Some ms'
     \<and> ms' (0, 2) = Some m
     \<and> msg_values m 0 = Some (interior_rule reduced_engine mixed_store (\<lambda>e. 1) 0 2 0)"
proof -
  let ?c = "compute_factor_to_variable_message_not_from_leaf 0 2 reduced_engine"
  have st: "factor_to_variable_messages reduced_engine (evidence_tuples reduced_engine)
              = Some Map.empty"
    by (simp add: star_defs)
  have nc: "\<not> contains (Map.empty :: int messages) 0 2"
    by (simp add: contains_def)
  have "\<not> isl ?c" by (simp add: star_defs interior_defs add_pos_pos)
  then have c: "?c = Inr (projr ?c)" by simp
  have vst: "variable_to_factor_messages reduced_engine (evidence_tuples reduced_engine)
               = Some mixed_store"
    by (simp add: star_defs)
  have d: "(0::int) \<in> set (domain (var_obj reduced_engine 2))"
    by (simp add: star_defs)
  have r: "\<forall>e\<in>set (fst (split_evidential_and_non_evidential_variables (var_obj reduced_engine)
                           (f_variables (fac_obj reduced_engine 0)) [2])).
             domain (var_obj reduced_engine e) = [(\<lambda>e. 1) e]"
    by (simp add: star_defs split_evidential_and_non_evidential_variables_def)
  from interior_factor_to_variable_rule [OF st nc c vst keyed_mixed_store d r]
  show ?thesis using c by blast
qed

text \<open>
  C10. In the interior factor-to-variable computation the message of every evidentiary
  variable is read at the first element of that variable's domain (which is therefore not
  empty): the computed value is \<open>interior_rule\<close> with that element as the fixed value. The
  observed value recorded in the evidence is not read; where it is not the first element
  of the domain, the message is read at another value than the observed one.
\<close>

theorem evidentiary_message_read_at_first_domain_element:
  assumes "factor_to_variable_messages s (evidence_tuples s) = Some ms"
    and "\<not> contains ms f x"
    and "compute_factor_to_variable_message_not_from_leaf f x s = Inr s'"
    and "variable_to_factor_messages s (evidence_tuples s) = Some vms"
    and "keyed vms"
    and "v \<in> set (domain (var_obj s x))"
  shows "(\<forall>e\<in>set (fst (split_evidential_and_non_evidential_variables (var_obj s)
                          (f_variables (fac_obj s f)) [x])). domain (var_obj s e) \<noteq> [])
         \<and> (\<exists>ms' m. factor_to_variable_messages s' (evidence_tuples s') = Some ms'
               \<and> ms' (f, x) = Some m
               \<and> msg_values m v
                   = Some (interior_rule s vms (\<lambda>e. hd (domain (var_obj s e))) f x v))"
proof -
  from compute_factor_to_variable_message_not_from_leaf_Inr [OF assms(1-3)]
  obtain vals where vals: "factor_to_variable_values_not_from_leaf f x s = Inr vals"
    and s': "factor_to_variable_messages s' (evidence_tuples s')
               = Some (ms((f, x) \<mapsto> \<lparr>from_node = f, to_node = x, msg_values = vals\<rparr>))"
    by blast
  from interior_values [OF vals assms(4-6)] s' show ?thesis by simp
qed

theorem evidentiary_message_read_at_first_domain_element_witness:
  "evidence_tuples mixed_engine = [(0, 1)]
   \<and> domain (var_obj mixed_engine 0) = [0, 1]
   \<and> message_value mixed_store 0 0 0 = 5 \<and> message_value mixed_store 0 0 1 = 7
   \<and> (\<exists>s' ms' m. compute_factor_to_variable_message_not_from_leaf 0 2 mixed_engine = Inr s'
         \<and> factor_to_variable_messages s' (evidence_tuples s') = Some ms'
         \<and> ms' (0, 2) = Some m
         \<and> msg_values m 0 = Some (5 + 3 + ln (exp (- 1) + 1)))"
proof -
  let ?c = "compute_factor_to_variable_message_not_from_leaf 0 2 mixed_engine"
  have st: "factor_to_variable_messages mixed_engine (evidence_tuples mixed_engine)
              = Some Map.empty"
    by (simp add: star_defs)
  have nc: "\<not> contains (Map.empty :: int messages) 0 2"
    by (simp add: contains_def)
  have "\<not> isl ?c" by (simp add: star_defs interior_defs add_pos_pos)
  then have c: "?c = Inr (projr ?c)" by simp
  have vst: "variable_to_factor_messages mixed_engine (evidence_tuples mixed_engine)
               = Some mixed_store"
    by (simp add: star_defs)
  have d: "(0::int) \<in> set (domain (var_obj mixed_engine 2))"
    by (simp add: star_defs)
  have val: "interior_rule mixed_engine mixed_store
               (\<lambda>e. hd (domain (var_obj mixed_engine e))) 0 2 0 = 5 + 3 + ln (exp (- 1) + 1)"
    by (simp add: interior_rule_def star_defs message_value_def
        split_evidential_and_non_evidential_variables_def evaluate_variables_def)
  have facts: "evidence_tuples mixed_engine = [(0, 1)]"
    "domain (var_obj mixed_engine 0) = [0, 1]"
    "message_value mixed_store 0 0 0 = 5" "message_value mixed_store 0 0 1 = 7"
    by (simp_all add: star_defs message_value_def)
  from evidentiary_message_read_at_first_domain_element [OF st nc c vst keyed_mixed_store d]
  show ?thesis using c val facts by auto
qed

subsection \<open>The elimination bucket\<close>










subsection \<open>What a run keeps and what it adds\<close>











lemma result_state_simps [simp]:
  "result_state (Inl (e, s)) = s" "result_state (Inr s) = s"
  by (simp_all add: result_state_def)























lemma stored_create_factor_to_variable:
  "stored (create_factor_to_variable_messages_cache_if_necessary s) = stored s"
  by (rule ext)
     (auto simp: stored_def create_factor_to_variable_messages_cache_if_necessary_def
        split: prod.splits direction.splits option.splits)

lemma stored_create_variable_to_factor:
  "stored (create_variable_to_factor_messages_cache_if_necessary s) = stored s"
  by (rule ext)
     (auto simp: stored_def create_variable_to_factor_messages_cache_if_necessary_def
        split: prod.splits direction.splits option.splits)


lemma computed_create [simp]:
  "computed (create_factor_to_variable_messages_cache_if_necessary s) = computed s"
  "computed (create_variable_to_factor_messages_cache_if_necessary s) = computed s"
  by (simp_all add: create_factor_to_variable_messages_cache_if_necessary_def
      create_variable_to_factor_messages_cache_if_necessary_def)

lemma stored_other_fields [simp]:
  "stored (s\<lparr>query_variable := qv\<rparr>) = stored s"
  "stored (s\<lparr>print_info := p\<rparr>) = stored s"
  "stored (s\<lparr>distribution := d\<rparr>) = stored s"
  by (auto simp: stored_def fun_eq_iff split: prod.splits direction.splits)




lemmas run_defs = check_non_empty_query_def check_one_variable_query_def check_query_and_evidence_intersection_def
  create_factor_to_variable_messages_cache_if_necessary_def create_variable_to_factor_messages_cache_if_necessary_def
  initialize_main_loop_def initialize_factor_passing_def initialize_variable_passing_def
  propagate_factor_to_variable_messages_from_leaves_def propagate_variable_to_factor_messages_from_leaves_def
  propagate_factor_to_variable_message_from_leaf_def propagate_variable_to_factor_message_from_leaf_def
  propagate_factor_to_variable_message_not_from_leaf_def propagate_variable_to_factor_message_not_from_leaf_def
  factor_leaves_def variable_leaves_def factors_number_def variables_number_def
  compute_factor_to_variable_message_from_leaf_def compute_variable_to_factor_message_from_leaf_def
  compute_factor_to_variable_message_not_from_leaf_def compute_variable_to_factor_message_not_from_leaf_def
  factor_to_variable_values_not_from_leaf_def variable_to_factor_values_not_from_leaf_def
  cache_factor_to_variable_message_def cache_variable_to_factor_message_def cache_def contains_def
  get_from_nodes_to_node_def dict_comprehension_def dict_of_def dict_get_def py_log_def message_call_def
  update_passing_factor_to_variable_def update_passing_variable_to_factor_def
  extend_next_variables_def extend_next_factors_def get_running_condition_def loop_body_def
  max_message_of_def from_evidential_variables_values_of_def messages_fsum_def weighted_factor_fsum_def
  split_evidential_and_non_evidential_variables_def evaluate_variables_def compute_distribution_def




subsection \<open>The distribution\<close>




subsection \<open>Factors that are not positive\<close>

lemma mapM_err_Inl: "mapM_err f xs = Inl e \<Longrightarrow> \<exists>x\<in>set xs. f x = Inl e"
  by (induction xs) (auto split: sum.splits)

lemma mapM_err_isl: "x \<in> set xs \<Longrightarrow> isl (f x) \<Longrightarrow> isl (mapM_err f xs)"
  by (induction xs) (auto split: sum.splits)

lemma get_from_nodes_to_node_error:
  "get_from_nodes_to_node ms from_nodes to = Inl e \<Longrightarrow> e = MissingMessage"
  unfolding get_from_nodes_to_node_def
  by (auto dest!: mapM_err_Inl split: option.splits)

lemma message_call_error: "message_call m v = Inl e \<Longrightarrow> e = KeyError"
  by (auto simp: message_call_def split: option.splits)

lemma messages_fsum_error: "messages_fsum ms ws = Inl e \<Longrightarrow> e = KeyError"
  unfolding messages_fsum_def
  by (auto dest!: mapM_err_Inl message_call_error split: sum.splits)

lemma max_message_of_error: "max_message_of tab nms = Inl e \<Longrightarrow> e \<noteq> MathDomainError"
  unfolding max_message_of_def
proof (cases "0 < length nms")
  case False
  assume "(if 0 < length nms
      then case mapM_err (\<lambda>(message, value). message_call message value)
                 (concat (map (\<lambda>message. map (\<lambda>value. (message, value))
                                          (domain (tab (from_node message)))) nms)) of
           Inl e \<Rightarrow> Inl e | Inr xs \<Rightarrow> py_max xs
      else Inr 0) = Inl e"
  with False show ?thesis by simp
next
  case True
  assume a: "(if 0 < length nms
      then case mapM_err (\<lambda>(message, value). message_call message value)
                 (concat (map (\<lambda>message. map (\<lambda>value. (message, value))
                                          (domain (tab (from_node message)))) nms)) of
           Inl e \<Rightarrow> Inl e | Inr xs \<Rightarrow> py_max xs
      else Inr 0) = Inl e"
  show ?thesis
  proof (cases "mapM_err (\<lambda>(message, value). message_call message value)
                 (concat (map (\<lambda>message. map (\<lambda>value. (message, value))
                                          (domain (tab (from_node message)))) nms))")
    case (Inl e')
    with a True have "e = e'" by simp
    with mapM_err_Inl [OF Inl] show ?thesis
      by (auto dest: message_call_error)
  next
    case (Inr xs)
    with a True have "py_max xs = Inl e" by simp
    then show ?thesis by (cases xs) auto
  qed
qed

lemma first_values_error:
  "from_evidential_variables_values_of tab es = Inl e \<Longrightarrow> e = IndexError"
  unfolding from_evidential_variables_values_of_def
  by (auto dest!: mapM_err_Inl split: list.splits)

lemma weighted_factor_fsum_error:
  "weighted_factor_fsum fobj free nms as M x v = Inl e \<Longrightarrow> e = KeyError"
  unfolding weighted_factor_fsum_def
  by (auto dest!: mapM_err_Inl messages_fsum_error split: sum.splits)

lemma interior_weighted_sum:
  assumes vms: "variable_to_factor_messages s (evidence_tuples s) = Some vms"
    and k: "keyed vms"
  shows "factor_to_variable_values_not_from_leaf f x s = Inr vals
           \<Longrightarrow> v \<in> set (domain (var_obj s x)) \<Longrightarrow> 0 < weighted_sum s vms f x v"
    and "factor_to_variable_values_not_from_leaf f x s = Inl MathDomainError
           \<Longrightarrow> \<exists>v\<in>set (domain (var_obj s x)). weighted_sum s vms f x v \<le> 0"
proof -
  obtain ev free where sp: "split_evidential_and_non_evidential_variables (var_obj s)
                          (f_variables (fac_obj s f)) [x] = (ev, free)"
    by (cases "split_evidential_and_non_evidential_variables (var_obj s)
                          (f_variables (fac_obj s f)) [x]")
  let ?G = "\<lambda>nms M evsum value.
               case weighted_factor_fsum (fac_obj s f) free nms
                      (evaluate_variables (var_obj s) free) M x value of
                 Inl e \<Rightarrow> Inl e
               | Inr weighted \<Rightarrow>
                   (case py_log weighted of
                      Inl e \<Rightarrow> Inl e
                    | Inr l \<Rightarrow> Inr (evsum + M + l))"
  have stages: "\<exists>nms M evsum.
          get_from_nodes_to_node vms free f = Inr nms
          \<and> max_message_of (var_obj s) nms = Inr M
          \<and> dict_comprehension (?G nms M evsum) (domain (var_obj s x)) = r"
    if "factor_to_variable_values_not_from_leaf f x s = r"
      and "(\<exists>vals. r = Inr vals) \<or> r = Inl MathDomainError" for r
    using that sp vms
    by (auto simp: factor_to_variable_values_not_from_leaf_def split: sum.splits
        dest: get_from_nodes_to_node_error max_message_of_error first_values_error
          messages_fsum_error)
  have W_eq: "W = weighted_sum s vms f x w"
    if "get_from_nodes_to_node vms free f = Inr nms" "max_message_of (var_obj s) nms = Inr M"
      "weighted_factor_fsum (fac_obj s f) free nms (evaluate_variables (var_obj s) free) M x w = Inr W"
    for nms M W w
  proof -
    from that(1) have ln: "list_all2 (\<lambda>u m. vms (u, f) = Some m) free nms"
      by (simp add: get_from_nodes_to_node_Inr)
    note M_eq = max_message_of_value [OF k ln that(2)]
    from weighted_factor_fsum_value [OF ln that(3)] M_eq show ?thesis
      unfolding weighted_sum_def sp prod.case Let_def by simp
  qed
  {
    assume c: "factor_to_variable_values_not_from_leaf f x s = Inr vals"
      and v: "v \<in> set (domain (var_obj s x))"
    from stages [OF c] obtain nms M evsum where
      nms: "get_from_nodes_to_node vms free f = Inr nms"
      and M: "max_message_of (var_obj s) nms = Inr M"
      and d: "dict_comprehension (?G nms M evsum) (domain (var_obj s x)) = Inr vals"
      by blast
    from dict_comprehension_Inr(2) [OF d v] obtain W where
      W: "weighted_factor_fsum (fac_obj s f) free nms (evaluate_variables (var_obj s) free) M x v = Inr W"
      and "0 < W"
      by (auto simp: py_log_def split: sum.splits if_splits)
    with W_eq [OF nms M W] show "0 < weighted_sum s vms f x v" by simp
  }
  {
    assume c: "factor_to_variable_values_not_from_leaf f x s = Inl MathDomainError"
    from stages [OF c] obtain nms M evsum where
      nms: "get_from_nodes_to_node vms free f = Inr nms"
      and M: "max_message_of (var_obj s) nms = Inr M"
      and d: "dict_comprehension (?G nms M evsum) (domain (var_obj s x)) = Inl MathDomainError"
      by blast
    from d have "mapM_err (?G nms M evsum) (domain (var_obj s x)) = Inl MathDomainError"
      by (auto simp: dict_comprehension_def split: sum.splits)
    from mapM_err_Inl [OF this] obtain w where w: "w \<in> set (domain (var_obj s x))"
      and g: "?G nms M evsum w = Inl MathDomainError" by blast
    from g obtain W where
      W: "weighted_factor_fsum (fac_obj s f) free nms (evaluate_variables (var_obj s) free) M x w = Inr W"
      and "W \<le> 0"
      by (auto simp: py_log_def split: sum.splits if_splits dest: weighted_factor_fsum_error)
    with W_eq [OF nms M W] w
    show "\<exists>v\<in>set (domain (var_obj s x)). weighted_sum s vms f x v \<le> 0" by auto
  }
qed

lemma leaf_values_fail:
  assumes "v \<in> set vs" and "g v \<le> 0"
  shows "dict_comprehension (\<lambda>value. py_log (g value)) vs = Inl MathDomainError"
proof -
  from assms have "isl (py_log (g v))" by (simp add: py_log_def)
  from mapM_err_isl [OF assms(1), of "\<lambda>value. py_log (g value)", OF this]
  obtain e where e: "mapM_err (\<lambda>value. py_log (g value)) vs = Inl e"
    by (cases "mapM_err (\<lambda>value. py_log (g value)) vs") auto
  from mapM_err_Inl [OF e] have "e = MathDomainError"
    by (auto simp: py_log_def split: if_splits)
  with e show ?thesis by (simp add: dict_comprehension_def)
qed

lemma compute_leaf_doomed:
  assumes "doomed f x s"
  shows "compute_factor_to_variable_message_from_leaf f x s = Inl (MathDomainError, s)"
proof -
  from assms obtain ms v where ms: "factor_to_variable_messages s (evidence_tuples s) = Some ms"
    and nc: "\<not> contains ms f x"
    and v: "v \<in> set (domain (var_obj s x))" "f_function (fac_obj s f) [(x, v)] \<le> 0"
    by (auto simp: doomed_def stored_def contains_def)
  from leaf_values_fail [of v "domain (var_obj s x)" "\<lambda>value. f_function (fac_obj s f) [(x, value)]", OF v]
  show ?thesis using ms nc
    by (simp add: compute_factor_to_variable_message_from_leaf_def)
qed

lemma compute_leaf_error:
  assumes "factor_to_variable_messages s (evidence_tuples s) \<noteq> None"
    and "compute_factor_to_variable_message_from_leaf g y s = Inl (e, s')"
  shows "e = MathDomainError"
proof -
  from assms(1) obtain ms where ms: "factor_to_variable_messages s (evidence_tuples s) = Some ms"
    by auto
  show ?thesis
  proof (cases "contains ms g y")
    case True
    with assms(2) ms show ?thesis
      by (simp add: compute_factor_to_variable_message_from_leaf_def)
  next
    case False
    let ?F = "\<lambda>value. py_log (f_function (fac_obj s g) [(y, value)])"
    show ?thesis
    proof (cases "dict_comprehension ?F (domain (var_obj s y))")
      case (Inl e')
      with assms(2) ms False have "e = e'"
        by (simp add: compute_factor_to_variable_message_from_leaf_def)
      moreover from Inl have "mapM_err ?F (domain (var_obj s y)) = Inl e'"
        by (auto simp: dict_comprehension_def split: sum.splits)
      from mapM_err_Inl [OF this] have "e' = MathDomainError"
        by (auto simp: py_log_def split: if_splits)
      ultimately show ?thesis by simp
    next
      case (Inr vals)
      with assms(2) ms False show ?thesis
        by (simp add: compute_factor_to_variable_message_from_leaf_def
            cache_factor_to_variable_message_def cache_def)
    qed
  qed
qed

lemma compute_leaf_keeps_doomed:
  assumes d: "doomed f x s" and ne: "g \<noteq> f"
    and c: "compute_factor_to_variable_message_from_leaf g y s = Inr s1"
  shows "doomed f x (extend_next_variables y (update_passing_factor_to_variable g y s1))
         \<and> (\<forall>h. f_variables (fac_obj (extend_next_variables y
                    (update_passing_factor_to_variable g y s1)) h) = f_variables (fac_obj s h))"
proof -
  from d obtain ms where ms: "factor_to_variable_messages s (evidence_tuples s) = Some ms"
    by (auto simp: doomed_def)
  have s1: "evidence_tuples s1 = evidence_tuples s \<and> fac_obj s1 = fac_obj s \<and> var_obj s1 = var_obj s
            \<and> factor_to_variable_messages s1 (evidence_tuples s) \<noteq> None
            \<and> stored s1 (FactorToVariable, evidence_tuples s, f, x)
                = stored s (FactorToVariable, evidence_tuples s, f, x)"
    using c ms ne
    by (auto simp: compute_factor_to_variable_message_from_leaf_def stored_def
        cache_factor_to_variable_message_def cache_def split: if_splits sum.splits)
  let ?s2 = "extend_next_variables y (update_passing_factor_to_variable g y s1)"
  have s2: "evidence_tuples ?s2 = evidence_tuples s1"
    "factor_to_variable_messages ?s2 = factor_to_variable_messages s1"
    "\<And>h. f_variables (fac_obj ?s2 h) = f_variables (fac_obj s1 h)"
    "\<And>h. f_function (fac_obj ?s2 h) = f_function (fac_obj s1 h)"
    "\<And>z. domain (var_obj ?s2 z) = domain (var_obj s1 z)"
    by (simp_all add: extend_next_variables_def update_passing_factor_to_variable_def)
  have st: "stored ?s2 (FactorToVariable, evidence_tuples s, f, x)
              = stored s1 (FactorToVariable, evidence_tuples s, f, x)"
    by (simp add: stored_def s2(2))
  from d s1 s2 st show ?thesis
    by (simp add: doomed_def)
qed

lemma propagate_leaves_doomed:
  assumes "doomed f x s" and "f \<in> set gs"
    and "\<forall>g\<in>set gs. f_variables (fac_obj s g) \<noteq> []"
  shows "\<exists>s'. for_each propagate_factor_to_variable_message_from_leaf gs s
                = Inl (MathDomainError, s')"
  using assms
proof (induction gs arbitrary: s)
  case Nil
  then show ?case by simp
next
  case (Cons g gs)
  from Cons.prems(3) obtain y ys where y: "f_variables (fac_obj s g) = y # ys"
    by (cases "f_variables (fac_obj s g)") auto
  show ?case
  proof (cases "g = f")
    case True
    with Cons.prems(1) y have "y = x" by (simp add: doomed_def)
    with compute_leaf_doomed [OF Cons.prems(1)] True y show ?thesis
      by (simp add: propagate_factor_to_variable_message_from_leaf_def)
  next
    case False
    with Cons.prems(2) have f_in: "f \<in> set gs" by simp
    from Cons.prems(1) have st: "factor_to_variable_messages s (evidence_tuples s) \<noteq> None"
      by (simp add: doomed_def)
    show ?thesis
    proof (cases "compute_factor_to_variable_message_from_leaf g y s")
      case (Inl es)
      obtain e s' where "es = (e, s')" by (cases es)
      with Inl compute_leaf_error [OF st, of g y e s'] y show ?thesis
        by (simp add: propagate_factor_to_variable_message_from_leaf_def)
    next
      case (Inr s1)
      let ?s2 = "extend_next_variables y (update_passing_factor_to_variable g y s1)"
      from compute_leaf_keeps_doomed [OF Cons.prems(1) False Inr]
      have d2: "doomed f x ?s2"
        and fv: "\<forall>h. f_variables (fac_obj ?s2 h) = f_variables (fac_obj s h)" by simp_all
      from fv Cons.prems(3) have "\<forall>g\<in>set gs. f_variables (fac_obj ?s2 g) \<noteq> []" by simp
      from Cons.IH [OF d2 f_in this] Inr y show ?thesis
        by (simp add: propagate_factor_to_variable_message_from_leaf_def)
    qed
  qed
qed

lemma stored_same:
  assumes "factor_to_variable_messages s' = factor_to_variable_messages s"
    and "variable_to_factor_messages s' = variable_to_factor_messages s"
  shows "stored s' = stored s"
  by (rule ext) (simp only: stored_def assms)

lemma run_fails_on_nonpositive_leaf:
  assumes q: "query s = [q]" "q \<notin> fst ` set (evidence_tuples s)"
    and leaf: "f \<in> set (factor_leaves s)" "f_variables (fac_obj s f) = [x]"
    and fresh: "stored s (FactorToVariable, evidence_tuples s, f, x) = None"
    and bad: "\<exists>v\<in>set (domain (var_obj s x)). f_function (fac_obj s f) [(x, v)] \<le> 0"
  shows "\<exists>s'. run p s = Some (Inl (MathDomainError, s'))"
proof -
  let ?s5 = "(create_variable_to_factor_messages_cache_if_necessary
               (create_factor_to_variable_messages_cache_if_necessary
                  (s\<lparr>query_variable := Some q\<rparr>)))
             \<lparr>print_info := p, distribution := None\<rparr>"
  let ?s6 = "initialize_variable_passing (initialize_factor_passing
               (?s5\<lparr>loop_passing := 0, next_factors := [], next_variables := []\<rparr>))"
  have ev: "evidence_tuples ?s6 = evidence_tuples s"
    by (simp add: init_defs)
  have ex: "factor_to_variable_messages ?s6 (evidence_tuples s) \<noteq> None"
    by (simp add: init_defs)
  have "stored ?s6 = stored ?s5"
    by (rule stored_same)
       (simp_all add: initialize_factor_passing_def initialize_variable_passing_def)
  also have "\<dots> = stored s"
    by (simp add: stored_create_variable_to_factor stored_create_factor_to_variable)
  finally have st: "stored ?s6 = stored s" .
  have fv: "f_variables (fac_obj ?s6 h) = f_variables (fac_obj s h)"
    "f_function (fac_obj ?s6 h) = f_function (fac_obj s h)"
    "domain (var_obj ?s6 z) = domain (var_obj s z)" "factors ?s6 = factors s" for h z
    by (simp_all add: init_defs)
  have d: "doomed f x ?s6"
    unfolding doomed_def ev st fv using ex leaf(2) fresh bad by simp
  have fl: "factor_leaves ?s6 = factor_leaves s"
    by (simp add: factor_leaves_def variables_number_def fv)
  have ne: "\<forall>g\<in>set (factor_leaves ?s6). f_variables (fac_obj ?s6 g) \<noteq> []"
    by (auto simp: factor_leaves_def variables_number_def)
  from propagate_leaves_doomed [OF d _ ne] leaf(1) fl
  obtain s' where "for_each propagate_factor_to_variable_message_from_leaf (factor_leaves ?s6) ?s6
                     = Inl (MathDomainError, s')" by auto
  then have init: "initialize_main_loop ?s5 = Inl (MathDomainError, s')"
    by (simp add: initialize_main_loop_def Let_def
        propagate_factor_to_variable_messages_from_leaves_def)
  have checks: "check_non_empty_query s = Inr ()" "check_one_variable_query s = Inr ()"
    "check_query_and_evidence_intersection s = Inr ()"
    using q
    by (simp_all add: check_non_empty_query_def check_one_variable_query_def
        check_query_and_evidence_intersection_def)
  show ?thesis
    unfolding run_def Let_def using checks q(1) init by simp
qed

lemmas skewed_defs =
  skewed_engine_def skewed_variables_def skewed_factors_def skewed_def init_engine_def
  mk_variable_def mk_factor_def

text \<open>
  C7, as the spec states it, fails on the tree \<open>A - F - Q\<close> whose factor is \<open>-1\<close> where
  \<open>A = 0\<close>: the interior rule sums the factor over both values of \<open>A\<close>, the sum is \<open>2\<close>, its
  logarithm is defined, and the run returns a distribution without any error.
\<close>

theorem negative_factor_value_is_not_reported:
  "f_function (fac_obj skewed_engine 0) [(0, 0), (1, 0)] = - 1
   \<and> (\<exists>s' d. run False skewed_engine = Some (Inr s') \<and> distribution s' = Some d
         \<and> d [0] = Some (1 / 2) \<and> d [1] = Some (1 / 2))"
  apply (rule conjI)
   apply (simp add: skewed_defs)
  apply (simp add: run_def run_defs skewed_defs Let_def)
  apply (subst main_loop.simps)
  apply (simp add: run_defs skewed_defs Let_def)
  apply (subst main_loop.simps)
  apply (simp add: run_defs skewed_defs Let_def)
  done

text \<open>
  C7, amended. A run fails with the math domain error when a leaf factor whose message is
  not yet stored for the current evidence is zero or negative at some value of its
  variable. In the interior rule the logarithm is taken of the weighted sum over the joint
  assignments of the free variables: a computation that stores a message has a positive
  weighted sum at every value of the destination, and one that raises the math domain
  error has a zero or negative weighted sum at some value.
\<close>

theorem nonpositive_factor_reporting:
  "(query s = [q] \<and> q \<notin> fst ` set (evidence_tuples s)
      \<and> f \<in> set (factor_leaves s) \<and> f_variables (fac_obj s f) = [x]
      \<and> stored s (FactorToVariable, evidence_tuples s, f, x) = None
      \<and> (\<exists>v\<in>set (domain (var_obj s x)). f_function (fac_obj s f) [(x, v)] \<le> 0)
    \<longrightarrow> (\<exists>s'. run p s = Some (Inl (MathDomainError, s'))))
   \<and> (variable_to_factor_messages s (evidence_tuples s) = Some vms \<and> keyed vms
        \<longrightarrow> (\<forall>s'. compute_factor_to_variable_message_not_from_leaf g y s = Inr s'
                  \<and> stored s (FactorToVariable, evidence_tuples s, g, y) = None
                \<longrightarrow> (\<forall>v\<in>set (domain (var_obj s y)). 0 < weighted_sum s vms g y v))
          \<and> (\<forall>s'. compute_factor_to_variable_message_not_from_leaf g y s
                      = Inl (MathDomainError, s')
                \<longrightarrow> (\<exists>v\<in>set (domain (var_obj s y)). weighted_sum s vms g y v \<le> 0)))"
proof (intro conjI impI allI)
  assume "query s = [q] \<and> q \<notin> fst ` set (evidence_tuples s)
      \<and> f \<in> set (factor_leaves s) \<and> f_variables (fac_obj s f) = [x]
      \<and> stored s (FactorToVariable, evidence_tuples s, f, x) = None
      \<and> (\<exists>v\<in>set (domain (var_obj s x)). f_function (fac_obj s f) [(x, v)] \<le> 0)"
  then show "\<exists>s'. run p s = Some (Inl (MathDomainError, s'))"
    using run_fails_on_nonpositive_leaf [of s q f x p] by blast
next
  fix s'
  assume st: "variable_to_factor_messages s (evidence_tuples s) = Some vms \<and> keyed vms"
    and c: "compute_factor_to_variable_message_not_from_leaf g y s = Inr s'
            \<and> stored s (FactorToVariable, evidence_tuples s, g, y) = None"
  from c obtain vals where "factor_to_variable_values_not_from_leaf g y s = Inr vals"
    by (auto simp: compute_factor_to_variable_message_not_from_leaf_def stored_def contains_def
        split: option.splits sum.splits if_splits)
  with interior_weighted_sum(1) [of s vms g y vals] st
  show "\<forall>v\<in>set (domain (var_obj s y)). 0 < weighted_sum s vms g y v" by blast
next
  fix s'
  assume st: "variable_to_factor_messages s (evidence_tuples s) = Some vms \<and> keyed vms"
    and c: "compute_factor_to_variable_message_not_from_leaf g y s = Inl (MathDomainError, s')"
  from c have "factor_to_variable_values_not_from_leaf g y s = Inl MathDomainError"
    by (auto simp: compute_factor_to_variable_message_not_from_leaf_def
        cache_factor_to_variable_message_def cache_def
        split: option.splits sum.splits if_splits)
  with interior_weighted_sum(2) [of s vms g y] st
  show "\<exists>v\<in>set (domain (var_obj s y)). weighted_sum s vms g y v \<le> 0" by blast
qed

lemmas sign_defs =
  sign_engine_def sign_variables_def sign_factors_def sign_store_def init_engine_def
  mk_variable_def mk_factor_def

theorem nonpositive_factor_reporting_witness:
  "(\<exists>s'. run False (sign_engine skewed) = Some (Inl (MathDomainError, s')))
   \<and> (\<exists>s'. compute_factor_to_variable_message_not_from_leaf 0 1 (sign_engine skewed) = Inr s')
   \<and> 0 < weighted_sum (sign_engine skewed) sign_store 0 1 0
   \<and> 0 < weighted_sum (sign_engine skewed) sign_store 0 1 1
   \<and> (\<exists>s'. compute_factor_to_variable_message_not_from_leaf 0 1 (sign_engine (\<lambda>binding. - 1))
              = Inl (MathDomainError, s'))
   \<and> (\<exists>v\<in>set (domain (var_obj (sign_engine (\<lambda>binding. - 1)) 1)).
         weighted_sum (sign_engine (\<lambda>binding. - 1)) sign_store 0 1 v \<le> 0)"
proof -
  let ?A = "sign_engine skewed"
  let ?B = "sign_engine (\<lambda>binding. - 1)"
  have leaf: "query ?A = [1] \<and> 1 \<notin> fst ` set (evidence_tuples ?A)
      \<and> 1 \<in> set (factor_leaves ?A) \<and> f_variables (fac_obj ?A 1) = [0]
      \<and> stored ?A (FactorToVariable, evidence_tuples ?A, 1, 0) = None
      \<and> (\<exists>v\<in>set (domain (var_obj ?A 0)). f_function (fac_obj ?A 1) [(0, v)] \<le> 0)"
    by (auto simp: sign_defs factor_leaves_def variables_number_def stored_def)
  have stA: "variable_to_factor_messages ?A (evidence_tuples ?A) = Some sign_store \<and> keyed sign_store"
    by (simp add: sign_defs keyed_def)
  have stB: "variable_to_factor_messages ?B (evidence_tuples ?B) = Some sign_store \<and> keyed sign_store"
    by (simp add: sign_defs keyed_def)
  have "\<not> isl (compute_factor_to_variable_message_not_from_leaf 0 1 ?A)"
    by (simp add: sign_defs skewed_def interior_defs)
  then have cA: "compute_factor_to_variable_message_not_from_leaf 0 1 ?A
                   = Inr (projr (compute_factor_to_variable_message_not_from_leaf 0 1 ?A))"
    by simp
  have frA: "stored ?A (FactorToVariable, evidence_tuples ?A, 0, 1) = None"
    by (simp add: sign_defs stored_def)
  have cB: "compute_factor_to_variable_message_not_from_leaf 0 1 ?B = Inl (MathDomainError, ?B)"
    by (simp add: sign_defs interior_defs)
  from nonpositive_factor_reporting [of ?A 1 1 0 False sign_store 0 1] leaf stA cA frA
  have 1: "\<exists>s'. run False ?A = Some (Inl (MathDomainError, s'))"
    and 2: "\<forall>v\<in>set (domain (var_obj ?A 1)). 0 < weighted_sum ?A sign_store 0 1 v"
    by blast+
  from nonpositive_factor_reporting [of ?B 1 1 0 False sign_store 0 1] stB cB
  have 3: "\<exists>v\<in>set (domain (var_obj ?B 1)). weighted_sum ?B sign_store 0 1 v \<le> 0"
    by blast
  have "(0::int) \<in> set (domain (var_obj ?A 1))" "(1::int) \<in> set (domain (var_obj ?A 1))"
    by (simp_all add: sign_defs)
  with 2 have 4: "0 < weighted_sum ?A sign_store 0 1 0" "0 < weighted_sum ?A sign_store 0 1 1"
    by blast+
  from 1 3 4 cA cB show ?thesis by blast
qed

end
